theory Spec2Isabelle
  imports Complex_Main "HOL-Library.Sublist"
begin

section \<open>Rate limiter (rate-limiter.ts)\<close>

text \<open>
  A TypeScript \<open>number\<close> is modelled as a real: the token count is fractional, and the
  model computes exactly where the source rounds to binary64. The two can differ in the
  last bit of a token count and in the millisecond a sleep is rounded up to, so a bound
  on the token count that is proved below is a bound in exact arithmetic. Every read of
  \<open>Date.now()\<close> is an input of the operation that performs it, so that nothing is
  assumed about the clock.
\<close>

record RateLimitConfig =
  requestsPerMinute :: real
  burstLimit :: real
  backoffMultiplier :: real
  maxBackoffMs :: real
  maxRetries :: real

definition DEFAULT_RATE_LIMIT_CONFIG :: RateLimitConfig where
  "DEFAULT_RATE_LIMIT_CONFIG =
     \<lparr> requestsPerMinute = 30,
       burstLimit = 10,
       backoffMultiplier = 2,
       maxBackoffMs = 5 * 60 * 1000,
       maxRetries = 3 \<rparr>"

record RateLimiter =
  tokens :: real
  lastRefill :: real
  config :: RateLimitConfig

text \<open>\<open>constructor(config)\<close>; \<open>now\<close> is the value \<open>Date.now()\<close> returns.\<close>

definition constructor :: "RateLimitConfig \<Rightarrow> real \<Rightarrow> RateLimiter" where
  "constructor cfg now = \<lparr> tokens = burstLimit cfg, lastRefill = now, config = cfg \<rparr>"

definition refillTokens :: "real \<Rightarrow> RateLimiter \<Rightarrow> RateLimiter" where
  "refillTokens now s =
     (let elapsedMs = now - lastRefill s;
          elapsedMinutes = elapsedMs / 60000;
          newTokens = elapsedMinutes * requestsPerMinute (RateLimiter.config s)
      in s\<lparr> tokens := min (burstLimit (RateLimiter.config s)) (tokens s + newTokens),
            lastRefill := now \<rparr>)"

text \<open>
  \<open>waitForToken\<close>: \<open>now1\<close> is the clock read of the first refill, \<open>now2\<close> the clock
  read of the refill after the sleep (only read on the slow path). The second component
  is the duration handed to \<open>sleep\<close>, if any.
\<close>

definition waitForToken :: "real \<Rightarrow> real \<Rightarrow> RateLimiter \<Rightarrow> RateLimiter \<times> real option" where
  "waitForToken now1 now2 s =
     (let s1 = refillTokens now1 s in
      if tokens s1 \<ge> 1 then (s1\<lparr> tokens := tokens s1 - 1 \<rparr>, None)
      else
        (let tokensNeeded = 1 - tokens s1;
             minutesToWait = tokensNeeded / requestsPerMinute (RateLimiter.config s1);
             msToWait = of_int \<lceil>minutesToWait * 60000\<rceil>;
             s2 = refillTokens now2 s1
         in (s2\<lparr> tokens := tokens s2 - 1 \<rparr>, Some msToWait)))"

definition getBackoffDelay :: "RateLimiter \<Rightarrow> nat \<Rightarrow> real" where
  "getBackoffDelay s attempt =
     (let baseDelay = 1000;
          delay = baseDelay * backoffMultiplier (RateLimiter.config s) ^ attempt
      in min delay (maxBackoffMs (RateLimiter.config s)))"

definition shouldRetry :: "RateLimiter \<Rightarrow> nat \<Rightarrow> bool" where
  "shouldRetry s attempt = (real attempt < maxRetries (RateLimiter.config s))"

text \<open>
  \<open>handleRateLimitResponse(retryAfterSeconds?)\<close>: the hint is optional, and the test
  \<open>retryAfterSeconds ? \<dots> : \<dots>\<close> also takes \<open>0\<close> as absent. The second component is
  the duration handed to \<open>sleep\<close>.
\<close>

definition handleRateLimitResponse :: "real option \<Rightarrow> RateLimiter \<Rightarrow> RateLimiter \<times> real" where
  "handleRateLimitResponse retryAfterSeconds s =
     (let waitMs = (case retryAfterSeconds of
                      None \<Rightarrow> maxBackoffMs (RateLimiter.config s)
                    | Some r \<Rightarrow> if r = 0 then maxBackoffMs (RateLimiter.config s) else r * 1000)
      in (s\<lparr> tokens := 0 \<rparr>, waitMs))"

text \<open>\<open>getStatus\<close> returns the pair (tokens, requestsPerMinute) and the refilled limiter.\<close>

definition getStatus :: "real \<Rightarrow> RateLimiter \<Rightarrow> (int \<times> real) \<times> RateLimiter" where
  "getStatus now s =
     (let s1 = refillTokens now s
      in ((\<lfloor>tokens s1\<rfloor>, requestsPerMinute (RateLimiter.config s1)), s1))"

subsection \<open>Sequences of limiter operations\<close>

text \<open>
  The operations that change a limiter, each with the clock reads it performs.
  \<open>getBackoffDelay\<close> and \<open>shouldRetry\<close> only read the configuration.
\<close>

datatype operation =
    WaitForToken real real
  | HandleRateLimitResponse "real option"
  | GetStatus real
  | RefillTokens real

fun step :: "operation \<Rightarrow> RateLimiter \<Rightarrow> RateLimiter" where
  "step (WaitForToken now1 now2) s = fst (waitForToken now1 now2 s)"
| "step (HandleRateLimitResponse r) s = fst (handleRateLimitResponse r s)"
| "step (GetStatus now) s = snd (getStatus now s)"
| "step (RefillTokens now) s = refillTokens now s"

fun run :: "operation list \<Rightarrow> RateLimiter \<Rightarrow> RateLimiter" where
  "run [] s = s"
| "run (x # xs) s = run xs (step x s)"

text \<open>The bounds of the token bucket.\<close>

definition bucket_inv :: "RateLimiter \<Rightarrow> bool" where
  "bucket_inv s = (0 \<le> tokens s \<and> tokens s \<le> burstLimit (RateLimiter.config s))"

text \<open>
  A configuration under which the bucket can hold a whole token and refills:
  \<open>burstLimit \<ge> 1\<close> and \<open>requestsPerMinute > 0\<close>.
\<close>

definition well_configured :: "RateLimitConfig \<Rightarrow> bool" where
  "well_configured cfg = (1 \<le> burstLimit cfg \<and> 0 < requestsPerMinute cfg)"

text \<open>
  A sound clock: no read is earlier than the last refill, and the read after the sleep
  of \<open>waitForToken\<close> is at least the slept duration after the read before it.
\<close>

fun clock_ok :: "operation \<Rightarrow> RateLimiter \<Rightarrow> bool" where
  "clock_ok (WaitForToken now1 now2) s =
     (lastRefill s \<le> now1 \<and>
      (case snd (waitForToken now1 now2 s) of
         None \<Rightarrow> True
       | Some msToWait \<Rightarrow> now1 + msToWait \<le> now2))"
| "clock_ok (HandleRateLimitResponse r) s = True"
| "clock_ok (GetStatus now) s = (lastRefill s \<le> now)"
| "clock_ok (RefillTokens now) s = (lastRefill s \<le> now)"

fun clocks_ok :: "operation list \<Rightarrow> RateLimiter \<Rightarrow> bool" where
  "clocks_ok [] s = True"
| "clocks_ok (x # xs) s = (clock_ok x s \<and> clocks_ok xs (step x s))"

text \<open>
  \<open>waitForToken\<close> is asynchronous: it runs without interruption up to its
  \<open>await this.sleep(msToWait)\<close> and again from there to its end, and on the slow path
  other callers run while it sleeps. Its two halves, before and after the \<open>await\<close>.
\<close>

definition waitForToken_begin :: "real \<Rightarrow> RateLimiter \<Rightarrow> RateLimiter \<times> real option" where
  "waitForToken_begin now1 s =
     (let s1 = refillTokens now1 s in
      if tokens s1 \<ge> 1 then (s1\<lparr> tokens := tokens s1 - 1 \<rparr>, None)
      else
        (let tokensNeeded = 1 - tokens s1;
             minutesToWait = tokensNeeded / requestsPerMinute (RateLimiter.config s1);
             msToWait = of_int \<lceil>minutesToWait * 60000\<rceil>
         in (s1, Some msToWait)))"

definition waitForToken_resume :: "real \<Rightarrow> RateLimiter \<Rightarrow> RateLimiter" where
  "waitForToken_resume now2 s1 =
     (let s2 = refillTokens now2 s1 in s2\<lparr> tokens := tokens s2 - 1 \<rparr>)"

text \<open>
  Twelve calls of \<open>waitForToken\<close> started at clock 0 on the default limiter constructed
  at clock 0, none awaited before the next is started. The first ten return at once and
  leave the limiter empty. The eleventh and the twelfth both run up to their sleep; their
  timers fire at clock 2000, in this order.
\<close>

definition emptied_limiter :: RateLimiter where
  "emptied_limiter = run (replicate 10 (WaitForToken 0 0)) (constructor DEFAULT_RATE_LIMIT_CONFIG 0)"

definition eleventh_call_sleeping :: RateLimiter where
  "eleventh_call_sleeping = fst (waitForToken_begin 0 emptied_limiter)"

definition twelfth_call_sleeping :: RateLimiter where
  "twelfth_call_sleeping = fst (waitForToken_begin 0 eleventh_call_sleeping)"

definition eleventh_call_done :: RateLimiter where
  "eleventh_call_done = waitForToken_resume 2000 twelfth_call_sleeping"

definition twelfth_call_done :: RateLimiter where
  "twelfth_call_done = waitForToken_resume 2000 eleventh_call_done"

text \<open>Eleven acquisitions while the clock stands still at the construction time.\<close>

definition frozen_clock_acquisitions :: "operation list" where
  "frozen_clock_acquisitions = replicate 11 (WaitForToken 0 0)"

text \<open>
  A run under a sound clock: ten immediate acquisitions, one that sleeps 2000 ms, a status
  read, a throttling response with a 60 s hint, a refill and one more acquisition.
\<close>

definition sound_clock_run :: "operation list" where
  "sound_clock_run =
     replicate 10 (WaitForToken 0 0) @
     [WaitForToken 0 2000, GetStatus 2500, HandleRateLimitResponse (Some 60),
      RefillTokens 62500, WaitForToken 62500 62500]"

text \<open>A configuration whose multiplier shrinks the delay and whose cap is below the base delay.\<close>

definition slow_config :: RateLimitConfig where
  "slow_config = DEFAULT_RATE_LIMIT_CONFIG \<lparr> backoffMultiplier := 1 / 2, maxBackoffMs := 600 \<rparr>"

section \<open>Retrying executor (\<open>withRateLimit\<close>)\<close>

text \<open>
  Whatever the wrapped function throws is either a \<open>RateLimitError\<close>, with its message and optional
  \<open>retryAfter\<close>, or any other \<open>Error\<close>.
\<close>

datatype error = RateLimitError string "real option" | Error string

text \<open>
  The effects of an execution, in order: the three log lines of the rate limiter, every
  timer wait, every invocation of the wrapped function (numbered) and every call of the
  \<open>onRetry\<close> observer.
\<close>

datatype event =
    LogWaiting real
  | LogRateLimited real
  | LogRetry nat real
  | Slept real
  | Invoked nat
  | OnRetry nat error

text \<open>
  The world an execution runs in: the limiter object, the number of clock reads and of
  invocations of the wrapped function made so far, and the effects so far. The environment is given by two
  functions: \<open>clock k\<close> is the value of the \<open>k\<close>-th read of \<open>Date.now()\<close>, and
  \<open>fn k\<close> is the outcome of the \<open>k\<close>-th invocation of the wrapped function (\<open>Inl\<close> what it throws,
  \<open>Inr\<close> what it returns).
\<close>

record world =
  limiter :: RateLimiter
  reads :: nat
  calls :: nat
  trace :: "event list"

definition waitForTokenW :: "(nat \<Rightarrow> real) \<Rightarrow> world \<Rightarrow> world" where
  "waitForTokenW clock w =
     (case waitForToken (clock (reads w)) (clock (reads w + 1)) (limiter w) of
        (s, None) \<Rightarrow> w\<lparr> limiter := s, reads := reads w + 1 \<rparr>
      | (s, Some msToWait) \<Rightarrow>
          w\<lparr> limiter := s, reads := reads w + 2,
             trace := trace w @ [LogWaiting msToWait, Slept msToWait] \<rparr>)"

definition handleRateLimitResponseW :: "real option \<Rightarrow> world \<Rightarrow> world" where
  "handleRateLimitResponseW retryAfter w =
     (case handleRateLimitResponse retryAfter (limiter w) of
        (s, waitMs) \<Rightarrow>
          w\<lparr> limiter := s, trace := trace w @ [LogRateLimited waitMs, Slept waitMs] \<rparr>)"

definition invoke :: "world \<Rightarrow> world" where
  "invoke w = w\<lparr> calls := calls w + 1, trace := trace w @ [Invoked (calls w)] \<rparr>"

text \<open>
  The \<open>for\<close> loop of \<open>withRateLimit\<close>, entered with the current \<open>attempt\<close> and
  \<open>lastError\<close>. The observer is optional; when given, \<open>callback attempt err\<close> is
  \<open>Some e\<close> if the observer throws \<open>e\<close>, which leaves the function at once since the
  call sits in the \<open>catch\<close> block.
\<close>

function withRateLimit_loop ::
  "(nat \<Rightarrow> real) \<Rightarrow> (nat \<Rightarrow> error + 'a) \<Rightarrow> (nat \<Rightarrow> error \<Rightarrow> error option) option
     \<Rightarrow> nat \<Rightarrow> error option \<Rightarrow> world \<Rightarrow> (error + 'a) \<times> world" where
  "withRateLimit_loop clock fn onRetry attempt lastError w =
     (if real attempt \<le> maxRetries DEFAULT_RATE_LIMIT_CONFIG then
        (let w1 = waitForTokenW clock w; w2 = invoke w1 in
         case fn (calls w1) of
           Inr v \<Rightarrow> (Inr v, w2)
         | Inl err \<Rightarrow>
             (case err of
                RateLimitError msg retryAfter \<Rightarrow>
                  withRateLimit_loop clock fn onRetry (attempt + 1) (Some err)
                    (handleRateLimitResponseW retryAfter w2)
              | Error msg \<Rightarrow>
                  if shouldRetry (limiter w2) attempt then
                    (let delay = getBackoffDelay (limiter w2) attempt;
                         w3 = w2\<lparr> trace := trace w2 @ [LogRetry (attempt + 1) delay] \<rparr>
                     in case onRetry of
                          None \<Rightarrow>
                            withRateLimit_loop clock fn onRetry (attempt + 1) (Some err)
                              (w3\<lparr> trace := trace w3 @ [Slept delay] \<rparr>)
                        | Some callback \<Rightarrow>
                            (let w4 = w3\<lparr> trace := trace w3 @ [OnRetry attempt err] \<rparr> in
                             case callback attempt err of
                               Some thrown \<Rightarrow> (Inl thrown, w4)
                             | None \<Rightarrow>
                                 withRateLimit_loop clock fn onRetry (attempt + 1) (Some err)
                                   (w4\<lparr> trace := trace w4 @ [Slept delay] \<rparr>)))
                  else (Inl err, w2)))
      else
        (case lastError of
           Some e \<Rightarrow> (Inl e, w)
         | None \<Rightarrow> (Inl (Error ''Max retries exceeded''), w)))"
  by pat_completeness auto
termination
  by (relation "measure (\<lambda>(clock, fn, onRetry, attempt, lastError, w). 4 - attempt)")
     (auto simp add: DEFAULT_RATE_LIMIT_CONFIG_def)

definition withRateLimit ::
  "(nat \<Rightarrow> real) \<Rightarrow> (nat \<Rightarrow> error + 'a) \<Rightarrow> (nat \<Rightarrow> error \<Rightarrow> error option) option
     \<Rightarrow> world \<Rightarrow> (error + 'a) \<times> world" where
  "withRateLimit clock fn onRetry w = withRateLimit_loop clock fn onRetry 0 None w"

text \<open>The waits of the throttling handler, read off the effects.\<close>

fun throttle_waits :: "event list \<Rightarrow> real list" where
  "throttle_waits [] = []"
| "throttle_waits (LogRateLimited ms # es) = ms # throttle_waits es"
| "throttle_waits (e # es) = throttle_waits es"

text \<open>A fresh world around a limiter constructed at time \<open>now\<close>.\<close>

definition new_world :: "RateLimitConfig \<Rightarrow> real \<Rightarrow> world" where
  "new_world cfg now = \<lparr> limiter = constructor cfg now, reads = 0, calls = 0, trace = [] \<rparr>"

text \<open>
  Concrete environments: a clock that advances 100 s between reads, and three wrapped
  functions.
\<close>

definition ticking_clock :: "nat \<Rightarrow> real" where
  "ticking_clock k = 100000 * real k"

definition throttled_four_times :: "nat \<Rightarrow> error + nat" where
  "throttled_four_times k =
     (if k < 4 then Inl (RateLimitError ''Rate limited by Reddit'' (Some 1)) else Inr 42)"

definition throttled_twice :: "nat \<Rightarrow> error + nat" where
  "throttled_twice k =
     (if k < 2 then Inl (RateLimitError ''Rate limited by Reddit'' (Some 7)) else Inr 42)"

definition always_failing :: "nat \<Rightarrow> error + nat" where
  "always_failing k = Inl (Error ''Reddit API error: 500'')"

text \<open>A limiter that allows ten retries, and one that allows none.\<close>

definition patient_config :: RateLimitConfig where
  "patient_config = DEFAULT_RATE_LIMIT_CONFIG \<lparr> maxRetries := 10 \<rparr>"

definition impatient_config :: RateLimitConfig where
  "impatient_config = DEFAULT_RATE_LIMIT_CONFIG \<lparr> maxRetries := 0 \<rparr>"

section \<open>Strings\<close>

text \<open>
  A string is a list of 8-bit code units, so the model covers the texts whose UTF-16 code
  units are below 256 (ASCII and Latin-1); \<open>length\<close> counts code units as the
  \<open>length\<close> of a JavaScript string does. \<open>toLowerCase\<close> is the mapping of JavaScript on that range.
\<close>

definition toLowerCaseChar :: "char \<Rightarrow> char" where
  "toLowerCaseChar c =
     (let n = of_char c :: nat in
      if (65 \<le> n \<and> n \<le> 90) \<or> (192 \<le> n \<and> n \<le> 214) \<or> (216 \<le> n \<and> n \<le> 222)
      then char_of (n + 32) else c)"

definition toLowerCase :: "string \<Rightarrow> string" where
  "toLowerCase s = map toLowerCaseChar s"

fun startsWith :: "string \<Rightarrow> string \<Rightarrow> bool" where
  "startsWith s [] = True"
| "startsWith [] (p # ps) = False"
| "startsWith (c # cs) (p # ps) = (c = p \<and> startsWith cs ps)"

text \<open>\<open>String.prototype.includes\<close>: the search string occurs at some position.\<close>

fun includes_string :: "string \<Rightarrow> string \<Rightarrow> bool" where
  "includes_string [] k = (k = [])"
| "includes_string (c # cs) k = (startsWith (c # cs) k \<or> includes_string cs k)"

text \<open>\<open>Number.prototype.toString\<close> on a natural number: its decimal digits.\<close>

fun toString :: "nat \<Rightarrow> string" where
  "toString n =
     (if n < 10 then [char_of (48 + n)]
      else toString (n div 10) @ [char_of (48 + n mod 10)])"

text \<open>
  \<open>URLSearchParams.toString\<close>: the form-urlencoded serialisation of the pairs. Letters,
  digits and \<open>* - . _\<close> stand for themselves, a space becomes \<open>+\<close>, and every other
  code unit is percent-encoded byte by byte in UTF-8 (two bytes from 128 on).
\<close>

definition hexDigit :: "nat \<Rightarrow> char" where
  "hexDigit d = (if d < 10 then char_of (48 + d) else char_of (55 + d))"

definition percentEncode :: "nat \<Rightarrow> string" where
  "percentEncode b = [CHR ''%'', hexDigit (b div 16), hexDigit (b mod 16)]"

definition urlencodeChar :: "char \<Rightarrow> string" where
  "urlencodeChar c =
     (let n = of_char c :: nat in
      if (48 \<le> n \<and> n \<le> 57) \<or> (65 \<le> n \<and> n \<le> 90) \<or> (97 \<le> n \<and> n \<le> 122)
         \<or> c \<in> set ''*-._'' then [c]
      else if c = CHR '' '' then ''+''
      else if n < 128 then percentEncode n
      else percentEncode (192 + n div 64) @ percentEncode (128 + n mod 64))"

definition urlencode :: "string \<Rightarrow> string" where
  "urlencode s = concat (map urlencodeChar s)"

fun URLSearchParams_toString :: "(string \<times> string) list \<Rightarrow> string" where
  "URLSearchParams_toString [] = []"
| "URLSearchParams_toString [(k, v)] = urlencode k @ ''='' @ urlencode v"
| "URLSearchParams_toString ((k, v) # kvs) =
     urlencode k @ ''='' @ urlencode v @ ''&'' @ URLSearchParams_toString kvs"

text \<open>
  \<open>String.prototype.trim\<close>, which the source never calls; it is needed to state what the
  specification says about questions.
\<close>

definition isWhiteSpace :: "char \<Rightarrow> bool" where
  "isWhiteSpace c = (of_char c \<in> set [9, 10, 11, 12, 13, 32, 160 :: nat])"

definition trim :: "string \<Rightarrow> string" where
  "trim s = rev (dropWhile isWhiteSpace (rev (dropWhile isWhiteSpace s)))"

section \<open>Reddit client (reddit-client.ts)\<close>

text \<open>The \<open>data\<close> of one child of a search response, and the response.\<close>

record RawPost =
  id' :: string
  subreddit :: string
  title :: string
  selftext :: string
  author :: string
  permalink :: string
  created_utc :: real
  score :: real
  num_comments :: real

record RedditSearchResponse =
  children :: "RawPost list"
  after :: "string option"

record RedditPost =
  id' :: string
  subreddit :: string
  title :: string
  content :: string
  author :: string
  url :: string
  createdUtc :: real
  score :: real
  numComments :: real

definition transformPost :: "RawPost \<Rightarrow> RedditPost" where
  "transformPost d =
     \<lparr> RedditPost.id' = RawPost.id' d,
       RedditPost.subreddit = RawPost.subreddit d,
       RedditPost.title = RawPost.title d,
       RedditPost.content = (if selftext d = [] then [] else selftext d),
       RedditPost.author = RawPost.author d,
       url = ''https://reddit.com'' @ permalink d,
       createdUtc = created_utc d,
       RedditPost.score = RawPost.score d,
       numComments = num_comments d \<rparr>"

datatype timeRange = hour | day | week | month

fun timeRange_string :: "timeRange \<Rightarrow> string" where
  "timeRange_string hour = ''hour''"
| "timeRange_string day = ''day''"
| "timeRange_string week = ''week''"
| "timeRange_string month = ''month''"

record SearchOptions =
  timeRange :: "timeRange option"
  limit :: "nat option"

text \<open>
  The endpoint that \<open>search\<close> builds for one subreddit; the limit is a natural number.
\<close>

definition searchEndpoint :: "string \<Rightarrow> timeRange \<Rightarrow> nat \<Rightarrow> string \<Rightarrow> string" where
  "searchEndpoint query timeRange' limit' subreddit' =
     ''/r/'' @ subreddit' @ ''/search.json?'' @
     URLSearchParams_toString
       [(''q'', query), (''restrict_sr'', ''true''), (''sort'', ''new''),
        (''t'', timeRange_string timeRange'), (''limit'', toString limit')]"

text \<open>
  \<open>search\<close> is modelled for every behaviour of the transport: \<open>request t endpoint\<close> is
  the outcome of \<open>this.request(endpoint)\<close> in the state \<open>t\<close> of the client and of
  the outside world (\<open>Inl\<close> what it throws, \<open>Inr\<close> the decoded response) and the state
  after it. The loop carries \<open>allPosts\<close>; the \<open>catch\<close> block only writes to the console
  and goes on with the next subreddit'.
\<close>

fun search_loop ::
  "('t \<Rightarrow> string \<Rightarrow> (error + RedditSearchResponse) \<times> 't) \<Rightarrow> string \<Rightarrow> timeRange \<Rightarrow> nat
     \<Rightarrow> string list \<Rightarrow> RedditPost list \<Rightarrow> 't \<Rightarrow> RedditPost list \<times> 't" where
  "search_loop request query timeRange' limit' [] allPosts t = (allPosts, t)"
| "search_loop request query timeRange' limit' (subreddit' # subreddits) allPosts t =
     (let endpoint = searchEndpoint query timeRange' limit' subreddit' in
      case request t endpoint of
        (Inr response, t1) \<Rightarrow>
          (let posts = map transformPost (children response)
           in search_loop request query timeRange' limit' subreddits (allPosts @ posts) t1)
      | (Inl err, t1) \<Rightarrow> search_loop request query timeRange' limit' subreddits allPosts t1)"

definition search ::
  "('t \<Rightarrow> string \<Rightarrow> (error + RedditSearchResponse) \<times> 't) \<Rightarrow> string \<Rightarrow> string list
     \<Rightarrow> SearchOptions \<Rightarrow> 't \<Rightarrow> (error + RedditPost list) \<times> 't" where
  "search request query subreddits options t =
     (let timeRange' = (case timeRange options of None \<Rightarrow> day | Some r \<Rightarrow> r);
          limit' = (case limit options of None \<Rightarrow> 25 | Some n \<Rightarrow> n)
      in case search_loop request query timeRange' limit' subreddits [] t of
           (allPosts, t') \<Rightarrow> (Inr allPosts, t'))"

text \<open>
  The outcomes of requesting the given endpoints one after the other, each in the state
  the previous one left, and the decoded posts of one outcome.
\<close>

fun responses ::
  "('t \<Rightarrow> string \<Rightarrow> (error + RedditSearchResponse) \<times> 't) \<Rightarrow> string list \<Rightarrow> 't
     \<Rightarrow> (error + RedditSearchResponse) list \<times> 't" where
  "responses request [] t = ([], t)"
| "responses request (endpoint # endpoints) t =
     (case request t endpoint of
        (r, t1) \<Rightarrow> (case responses request endpoints t1 of (rs, t2) \<Rightarrow> (r # rs, t2)))"

definition decoded_posts :: "error + RedditSearchResponse \<Rightarrow> RedditPost list" where
  "decoded_posts r = (case r of Inl err \<Rightarrow> [] | Inr response \<Rightarrow> map transformPost (children response))"

text \<open>
  A transport whose state counts the requests made, and whose second request fails.
\<close>

definition a_raw :: "string \<Rightarrow> RawPost" where
  "a_raw i =
     \<lparr> RawPost.id' = i, RawPost.subreddit = ''webdev'', RawPost.title = ''post '' @ i,
       selftext = [], RawPost.author = ''someone'', permalink = ''/r/webdev/comments/'' @ i,
       created_utc = 1700000000, RawPost.score = 1, num_comments = 0 \<rparr>"

definition flaky_request :: "nat \<Rightarrow> string \<Rightarrow> (error + RedditSearchResponse) \<times> nat" where
  "flaky_request n endpoint =
     (if n = 1 then Inl (Error ''Reddit API error: 500'')
      else Inr \<lparr> children = [a_raw (toString n)], after = None \<rparr>,
      n + 1)"

subsection \<open>Construction from the environment\<close>

record RedditClientConfig =
  clientId :: string
  clientSecret :: string
  userAgent :: string

record RedditClient =
  config :: RedditClientConfig
  rateLimiter :: RateLimiter
  accessToken :: "string option"
  tokenExpiry :: real

text \<open>\<open>process.env\<close>: each variable is a string or undefined.\<close>

record Env =
  REDDIT_CLIENT_ID :: "string option"
  REDDIT_CLIENT_SECRET :: "string option"
  REDDIT_USER_AGENT :: "string option"

text \<open>JavaScript falsiness of a \<open>string | undefined\<close>: undefined or the empty string.\<close>

definition falsy :: "string option \<Rightarrow> bool" where
  "falsy v = (case v of None \<Rightarrow> True | Some s \<Rightarrow> s = [])"

definition RedditClient_constructor :: "RedditClientConfig \<Rightarrow> real \<Rightarrow> RedditClient" where
  "RedditClient_constructor cfg now =
     \<lparr> config = cfg,
       rateLimiter = constructor DEFAULT_RATE_LIMIT_CONFIG now,
       accessToken = None,
       tokenExpiry = 0 \<rparr>"

definition createRedditClient :: "Env \<Rightarrow> real \<Rightarrow> error + RedditClient" where
  "createRedditClient env now =
     (let clientId' = REDDIT_CLIENT_ID env;
          clientSecret' = REDDIT_CLIENT_SECRET env;
          userAgent' = (if falsy (REDDIT_USER_AGENT env)
                       then ''LeadOwl/1.0.0 (https://leadowl.techyowls.io)''
                       else the (REDDIT_USER_AGENT env))
      in if falsy clientId' \<or> falsy clientSecret'
         then Inl (Error ''Missing REDDIT_CLIENT_ID or REDDIT_CLIENT_SECRET environment variables'')
         else Inr (RedditClient_constructor
                     \<lparr> clientId = the clientId', clientSecret = the clientSecret',
                       userAgent = userAgent' \<rparr> now))"

definition env_without_user_agent :: Env where
  "env_without_user_agent =
     \<lparr> REDDIT_CLIENT_ID = Some ''my-client-id'',
       REDDIT_CLIENT_SECRET = Some ''my-client-secret'',
       REDDIT_USER_AGENT = None \<rparr>"

definition env_without_secret :: Env where
  "env_without_secret =
     \<lparr> REDDIT_CLIENT_ID = Some ''my-client-id'',
       REDDIT_CLIENT_SECRET = None,
       REDDIT_USER_AGENT = Some ''LeadOwl-test/0.1'' \<rparr>"

section \<open>Collector (collector.ts)\<close>

definition MONITORED_SUBREDDITS :: "string list" where
  "MONITORED_SUBREDDITS =
     [''webdev'', ''SaaS'', ''startups'', ''node'', ''reactjs'', ''selfhosted'',
      ''indiehackers'', ''programming'', ''macapps'', ''devops'', ''typescript'',
      ''javascript'']"

text \<open>The object \<open>PRODUCT_KEYWORDS\<close>, as its entries in insertion order.\<close>

definition PRODUCT_KEYWORDS :: "(string \<times> string list) list" where
  "PRODUCT_KEYWORDS =
     [(''snapforge'',
        [''screenshot api'', ''screenshot service'', ''webpage capture'', ''url to image'',
         ''website screenshot'', ''html to image'', ''puppeteer screenshot'',
         ''playwright screenshot'']),
      (''octa'',
        [''mac calculator'', ''calculator app mac'', ''developer calculator'',
         ''programmer calculator'', ''scientific calculator mac'', ''hex calculator'',
         ''binary calculator'']),
      (''watchowl'',
        [''visual monitoring'', ''website change detection'', ''visual regression'',
         ''page change alert'', ''website diff'']),
      (''docforge'',
        [''pdf api'', ''html to pdf'', ''pdf generation'', ''document generation api'',
         ''invoice pdf api''])]"

definition INTENT_KEYWORDS :: "string list" where
  "INTENT_KEYWORDS =
     [''looking for'', ''recommend'', ''alternative to'', ''best tool for'', ''anyone know'',
      ''need a'', ''searching for'']"

text \<open>Dates are milliseconds since the epoch.\<close>

record StoredLead =
  id' :: string
  source :: string
  sourceId :: string
  sourceUrl :: string
  title :: string
  content :: string
  author :: string
  authorUrl :: string
  matchedKeywords :: "string list"
  collectedAt :: real
  sourceCreatedAt :: real

text \<open>
  \<open>deduplicatePosts\<close>: the callback of \<open>filter\<close> runs over the posts in order and
  keeps the set \<open>seen\<close> of the ids met so far.
\<close>

fun deduplicatePosts_filter :: "string set \<Rightarrow> RedditPost list \<Rightarrow> RedditPost list" where
  "deduplicatePosts_filter seen [] = []"
| "deduplicatePosts_filter seen (post # posts) =
     (if RedditPost.id' post \<in> seen then deduplicatePosts_filter seen posts
      else post # deduplicatePosts_filter (insert (RedditPost.id' post) seen) posts)"

definition deduplicatePosts :: "RedditPost list \<Rightarrow> RedditPost list" where
  "deduplicatePosts posts = deduplicatePosts_filter {} posts"

text \<open>
  \<open>[...new Set(matched)]\<close>: a \<open>Set\<close> keeps its elements in the order of their first
  insertion.
\<close>

fun Set_spread :: "string list \<Rightarrow> string list \<Rightarrow> string list" where
  "Set_spread elems [] = elems"
| "Set_spread elems (x # xs) =
     (if x \<in> set elems then Set_spread elems xs else Set_spread (elems @ [x]) xs)"

definition findMatchedKeywords :: "RedditPost \<Rightarrow> string list" where
  "findMatchedKeywords post =
     (let text' = toLowerCase (RedditPost.title post @ '' '' @ RedditPost.content post);
          matched =
            foldl (\<lambda>matched keywords.
                     foldl (\<lambda>matched keyword.
                              if includes_string text' (toLowerCase keyword)
                              then matched @ [keyword] else matched)
                       matched keywords)
              [] (map snd PRODUCT_KEYWORDS)
      in Set_spread [] matched)"

text \<open>
  \<open>transformToLead\<close>; \<open>now\<close> is the value of \<open>new Date()\<close>. The source also computes
  \<open>findMatchedProduct\<close>, whose result it does not use.
\<close>

definition transformToLead :: "RedditPost \<Rightarrow> real \<Rightarrow> StoredLead" where
  "transformToLead post now =
     (let matchedKeywords' = findMatchedKeywords post in
      \<lparr> StoredLead.id' = ''reddit_'' @ RedditPost.id' post,
        source = ''reddit'',
        sourceId = RedditPost.id' post,
        sourceUrl = url post,
        StoredLead.title = RedditPost.title post,
        StoredLead.content = RedditPost.content post,
        StoredLead.author = RedditPost.author post,
        authorUrl = ''https://reddit.com/u/'' @ RedditPost.author post,
        matchedKeywords = matchedKeywords',
        collectedAt = now,
        sourceCreatedAt = createdUtc post * 1000 \<rparr>)"

definition hasGenuineIntent :: "StoredLead \<Rightarrow> bool" where
  "hasGenuineIntent lead =
     (let text' = toLowerCase (StoredLead.title lead @ '' '' @ StoredLead.content lead);
          hasIntentKeyword = list_ex (\<lambda>keyword. includes_string text' keyword) INTENT_KEYWORDS;
          isQuestion =
            (includes_string text' ''?'' \<or> startsWith text' ''how'' \<or> startsWith text' ''what''
             \<or> startsWith text' ''which'' \<or> startsWith text' ''any'');
          hasSubstance =
            (length (StoredLead.content lead) > 50 \<or> length (StoredLead.title lead) > 30)
      in (hasIntentKeyword \<or> isQuestion) \<and> hasSubstance)"

subsection \<open>The collection run\<close>

record RedditCollector =
  client :: RedditClient

text \<open>\<open>new RedditCollector(client?)\<close>: without a client, one is created from the environment.\<close>

definition RedditCollector_constructor ::
  "RedditClient option \<Rightarrow> Env \<Rightarrow> real \<Rightarrow> error + RedditCollector" where
  "RedditCollector_constructor given env now =
     (case given of
        Some c \<Rightarrow> Inr \<lparr> client = c \<rparr>
      | None \<Rightarrow>
          (case createRedditClient env now of
             Inl err \<Rightarrow> Inl err
           | Inr c \<Rightarrow> Inr \<lparr> client = c \<rparr>))"

text \<open>
  The two nested loops of \<open>collect\<close> over the products and their keywords. The state of
  the transport is the client object together with the outside world.
\<close>

fun collect_keywords ::
  "('t \<Rightarrow> string \<Rightarrow> (error + RedditSearchResponse) \<times> 't) \<Rightarrow> string list
     \<Rightarrow> RedditPost list \<Rightarrow> 't \<Rightarrow> (error + RedditPost list) \<times> 't" where
  "collect_keywords request [] allPosts t = (Inr allPosts, t)"
| "collect_keywords request (keyword # keywords) allPosts t =
     (case search request keyword MONITORED_SUBREDDITS
             \<lparr> timeRange = Some day, limit = Some 25 \<rparr> t of
        (Inl err, t1) \<Rightarrow> (Inl err, t1)
      | (Inr posts, t1) \<Rightarrow> collect_keywords request keywords (allPosts @ posts) t1)"

fun collect_products ::
  "('t \<Rightarrow> string \<Rightarrow> (error + RedditSearchResponse) \<times> 't) \<Rightarrow> (string \<times> string list) list
     \<Rightarrow> RedditPost list \<Rightarrow> 't \<Rightarrow> (error + RedditPost list) \<times> 't" where
  "collect_products request [] allPosts t = (Inr allPosts, t)"
| "collect_products request ((product, keywords) # entries) allPosts t =
     (case collect_keywords request keywords allPosts t of
        (Inl err, t1) \<Rightarrow> (Inl err, t1)
      | (Inr allPosts1, t1) \<Rightarrow> collect_products request entries allPosts1 t1)"

text \<open>\<open>collect\<close>; \<open>dates i\<close> is the value of \<open>new Date()\<close> for the \<open>i\<close>-th unique post.\<close>

definition collect ::
  "('t \<Rightarrow> string \<Rightarrow> (error + RedditSearchResponse) \<times> 't) \<Rightarrow> (nat \<Rightarrow> real) \<Rightarrow> 't
     \<Rightarrow> (error + StoredLead list) \<times> 't" where
  "collect request dates t =
     (case collect_products request PRODUCT_KEYWORDS [] t of
        (Inl err, t1) \<Rightarrow> (Inl err, t1)
      | (Inr allPosts, t1) \<Rightarrow>
          (let uniquePosts = deduplicatePosts allPosts;
               leads = map (\<lambda>(i, post). transformToLead post (dates i)) (enumerate 0 uniquePosts);
               filteredLeads = filter hasGenuineIntent leads
           in (Inr filteredLeads, t1)))"

definition runCollection ::
  "(RedditClient \<times> 'w \<Rightarrow> string \<Rightarrow> (error + RedditSearchResponse) \<times> RedditClient \<times> 'w)
     \<Rightarrow> (nat \<Rightarrow> real) \<Rightarrow> Env \<Rightarrow> real \<Rightarrow> 'w \<Rightarrow> (error + StoredLead list) \<times> 'w" where
  "runCollection request dates env now w =
     (case RedditCollector_constructor None env now of
        Inl err \<Rightarrow> (Inl err, w)
      | Inr collector \<Rightarrow>
          (case collect request dates (client collector, w) of
             (r, c, w') \<Rightarrow> (r, w')))"

text \<open>\<open>main\<close>: the exit status of the process, 1 when the collection failed.\<close>

definition main ::
  "(RedditClient \<times> 'w \<Rightarrow> string \<Rightarrow> (error + RedditSearchResponse) \<times> RedditClient \<times> 'w)
     \<Rightarrow> (nat \<Rightarrow> real) \<Rightarrow> Env \<Rightarrow> real \<Rightarrow> 'w \<Rightarrow> nat \<times> 'w" where
  "main request dates env now w =
     (case runCollection request dates env now w of
        (Inl err, w') \<Rightarrow> (1, w')
      | (Inr leads, w') \<Rightarrow> (0, w'))"

text \<open>A transport that answers every request with an empty listing and counts the requests.\<close>

definition counting_request ::
  "RedditClient \<times> nat \<Rightarrow> string \<Rightarrow> (error + RedditSearchResponse) \<times> RedditClient \<times> nat" where
  "counting_request t endpoint =
     (Inr \<lparr> children = [], after = None \<rparr>, fst t, snd t + 1)"

subsection \<open>The specification's wording\<close>

text \<open>
  The predicate as the specification describes it: the intent phrases matched
  case-insensitively, a question recognised by a question mark or, after trimming, by one
  of four openers, and the two length bounds.
\<close>

definition QUESTION_OPENERS :: "string list" where
  "QUESTION_OPENERS = [''how'', ''what'', ''which'', ''any'']"

definition hasGenuineIntent_spec :: "StoredLead \<Rightarrow> bool" where
  "hasGenuineIntent_spec lead =
     (let text' = toLowerCase (StoredLead.title lead @ '' '' @ StoredLead.content lead)
      in ((\<exists>k \<in> set INTENT_KEYWORDS. sublist (toLowerCase k) text')
          \<or> (CHR ''?'' \<in> set text' \<or> (\<exists>p \<in> set QUESTION_OPENERS. prefix p (trim text'))))
         \<and> (length (StoredLead.content lead) > 50 \<or> length (StoredLead.title lead) > 30))"

text \<open>
  The matched keywords as the specification describes them: the keywords of all products
  whose lower-cased form occurs in the lower-cased concatenation of title and content.
\<close>

definition matchedKeywords_spec :: "RedditPost \<Rightarrow> string set" where
  "matchedKeywords_spec post =
     {k \<in> set (concat (map snd PRODUCT_KEYWORDS)).
        sublist (toLowerCase k) (toLowerCase (RedditPost.title post @ RedditPost.content post))}"

subsection \<open>Concrete posts and leads\<close>

definition a_post :: "string \<Rightarrow> string \<Rightarrow> string \<Rightarrow> RedditPost" where
  "a_post i t c =
     \<lparr> RedditPost.id' = i, RedditPost.subreddit = ''webdev'', RedditPost.title = t,
       RedditPost.content = c, RedditPost.author = ''someone'',
       url = ''https://reddit.com/r/webdev/comments/'' @ i,
       createdUtc = 1700000000, RedditPost.score = 1, numComments = 0 \<rparr>"

definition post_across_boundary :: RedditPost where
  "post_across_boundary = a_post ''p1'' ''screenshot'' ''api''"

definition post_two_products :: RedditPost where
  "post_two_products =
     a_post ''p2'' ''Screenshot API or Html To Pdf?'' ''Which one handles an invoice pdf api best''"

definition a_lead :: "string \<Rightarrow> string \<Rightarrow> string \<Rightarrow> StoredLead" where
  "a_lead i t c =
     \<lparr> StoredLead.id' = ''reddit_'' @ i, source = ''reddit'', sourceId = i,
       sourceUrl = ''https://reddit.com/r/webdev/comments/'' @ i,
       StoredLead.title = t, StoredLead.content = c, StoredLead.author = ''someone'',
       authorUrl = ''https://reddit.com/u/someone'', matchedKeywords = [],
       collectedAt = 0, sourceCreatedAt = 0 \<rparr>"

definition lead_indented_question :: StoredLead where
  "lead_indented_question = a_lead ''p3'' '' how do I capture a web page as an image'' []"

definition lead_looking_for :: StoredLead where
  "lead_looking_for = a_lead ''p4'' ''Looking for a screenshot API that scales'' ''thanks''"

section \<open>Properties of the rate limiter\<close>

lemma config_refillTokens [simp]:
  "RateLimiter.config (refillTokens now s) = RateLimiter.config s"
  by (simp add: refillTokens_def)

lemma lastRefill_refillTokens [simp]: "lastRefill (refillTokens now s) = now"
  by (simp add: refillTokens_def)

lemma waitForToken_config [simp]:
  "RateLimiter.config (fst (waitForToken now1 now2 s)) = RateLimiter.config s"
  by (simp add: waitForToken_def refillTokens_def Let_def)

lemma config_step [simp]: "RateLimiter.config (step x s) = RateLimiter.config s"
  by (cases x) (simp_all add: handleRateLimitResponse_def getStatus_def Let_def)

lemma config_run [simp]: "RateLimiter.config (run xs s) = RateLimiter.config s"
  by (induction xs arbitrary: s) simp_all

text \<open>
  The lemmas on the bounds are about the exact arithmetic of the model. A refill at a clock
  read that is not earlier than the last one keeps the bounds.
\<close>

lemma refillTokens_inv:
  assumes "bucket_inv s" and "0 \<le> requestsPerMinute (RateLimiter.config s)"
    and "lastRefill s \<le> now" and "0 \<le> burstLimit (RateLimiter.config s)"
  shows "bucket_inv (refillTokens now s)"
proof -
  have "0 \<le> (now - lastRefill s) / 60000 * requestsPerMinute (RateLimiter.config s)"
    using assms by simp
  then show ?thesis
    using assms by (simp add: bucket_inv_def refillTokens_def)
qed

lemma refillTokens_mono:
  assumes "tokens s \<le> burstLimit (RateLimiter.config s)"
    and "0 \<le> requestsPerMinute (RateLimiter.config s)" and "lastRefill s \<le> now"
  shows "tokens s \<le> tokens (refillTokens now s)"
proof -
  have "0 \<le> (now - lastRefill s) / 60000 * requestsPerMinute (RateLimiter.config s)"
    using assms by simp
  then show ?thesis
    using assms by (simp add: refillTokens_def)
qed

text \<open>In exact arithmetic, the refill after a sleep of the computed duration yields a whole token.\<close>

lemma slow_path_refill:
  assumes rpm: "0 < requestsPerMinute (RateLimiter.config s)"
    and b: "1 \<le> burstLimit (RateLimiter.config s)"
    and w: "lastRefill s
              + of_int \<lceil>(1 - tokens s) / requestsPerMinute (RateLimiter.config s) * 60000\<rceil>
            \<le> now"
  shows "1 \<le> tokens (refillTokens now s)"
proof -
  let ?r = "requestsPerMinute (RateLimiter.config s)"
  have "(1 - tokens s) / ?r * 60000 \<le> of_int \<lceil>(1 - tokens s) / ?r * 60000\<rceil>"
    by (rule le_of_int_ceiling)
  also have "\<dots> \<le> now - lastRefill s" using w by simp
  finally have "(1 - tokens s) / ?r * 60000 \<le> now - lastRefill s" .
  then have "(1 - tokens s) * 60000 \<le> (now - lastRefill s) * ?r"
    using rpm by (simp add: pos_divide_le_eq field_simps)
  then have "1 \<le> tokens s + (now - lastRefill s) / 60000 * ?r"
    by (simp add: field_simps)
  then show ?thesis using b by (simp add: refillTokens_def)
qed

text \<open>
  What \<open>waitForToken\<close>, run as a whole, leaves behind under a sound clock in exact
  arithmetic: the bounds hold, and the count has dropped by at most the one token consumed.
\<close>

lemma waitForToken_sound:
  assumes wc: "well_configured (RateLimiter.config s)" and inv: "bucket_inv s"
    and ok: "clock_ok (WaitForToken now1 now2) s"
  shows "bucket_inv (fst (waitForToken now1 now2 s))"
    and "tokens s - 1 \<le> tokens (fst (waitForToken now1 now2 s))"
proof -
  let ?s1 = "refillTokens now1 s"
  have c: "0 \<le> requestsPerMinute (RateLimiter.config s)" "0 \<le> burstLimit (RateLimiter.config s)"
    "1 \<le> burstLimit (RateLimiter.config s)" "0 < requestsPerMinute (RateLimiter.config s)"
    using wc by (simp_all add: well_configured_def)
  have l1: "lastRefill s \<le> now1" using ok by simp
  have i1: "bucket_inv ?s1"
    using refillTokens_inv [of s now1] inv c l1 by simp
  have m1: "tokens s \<le> tokens ?s1"
    using refillTokens_mono [of s now1] inv c l1 by (simp add: bucket_inv_def)
  have "bucket_inv (fst (waitForToken now1 now2 s))
        \<and> tokens s - 1 \<le> tokens (fst (waitForToken now1 now2 s))"
  proof (cases "1 \<le> tokens ?s1")
    case True
    then show ?thesis using i1 m1
      by (simp add: waitForToken_def bucket_inv_def Let_def)
  next
    case False
    let ?ms = "of_int \<lceil>(1 - tokens ?s1) / requestsPerMinute (RateLimiter.config s) * 60000\<rceil> :: real"
    have wt: "now1 + ?ms \<le> now2"
      using ok False by (simp add: waitForToken_def Let_def)
    have "0 \<le> (1 - tokens ?s1) / requestsPerMinute (RateLimiter.config s) * 60000"
      using False c by simp
    then have ms0: "0 \<le> ?ms" by simp
    have "lastRefill ?s1 = now1" by simp
    with ms0 wt have l2: "lastRefill ?s1 \<le> now2" by linarith
    have i2: "bucket_inv (refillTokens now2 ?s1)"
      using refillTokens_inv [of ?s1 now2] i1 c l2 by simp
    have m2: "tokens ?s1 \<le> tokens (refillTokens now2 ?s1)"
      using refillTokens_mono [of ?s1 now2] i1 c l2 by (simp add: bucket_inv_def)
    have "1 \<le> tokens (refillTokens now2 ?s1)"
      using slow_path_refill [of ?s1 now2] c wt by simp
    then show ?thesis using i2 m1 m2 False
      by (simp add: waitForToken_def bucket_inv_def Let_def)
  qed
  then show "bucket_inv (fst (waitForToken now1 now2 s))"
    and "tokens s - 1 \<le> tokens (fst (waitForToken now1 now2 s))"
    by simp_all
qed

lemma step_inv:
  assumes "well_configured (RateLimiter.config s)" and "bucket_inv s" and "clock_ok x s"
  shows "bucket_inv (step x s)"
proof (cases x)
  case (WaitForToken now1 now2)
  then show ?thesis using assms waitForToken_sound(1) [of s now1 now2] by simp
next
  case (HandleRateLimitResponse r)
  then show ?thesis using assms
    by (simp add: handleRateLimitResponse_def bucket_inv_def well_configured_def Let_def)
next
  case (GetStatus now)
  then show ?thesis using assms refillTokens_inv [of s now]
    by (simp add: getStatus_def well_configured_def Let_def)
next
  case (RefillTokens now)
  then show ?thesis using assms refillTokens_inv [of s now]
    by (simp add: well_configured_def)
qed

lemma run_inv:
  "well_configured (RateLimiter.config s) \<Longrightarrow> bucket_inv s \<Longrightarrow> clocks_ok xs s \<Longrightarrow>
   bucket_inv (run xs s)"
  by (induction xs arbitrary: s) (simp_all add: step_inv)

lemma constructor_inv:
  "well_configured cfg \<Longrightarrow> bucket_inv (constructor cfg now)"
  by (simp add: bucket_inv_def constructor_def well_configured_def)

lemma constructor_config [simp]: "RateLimiter.config (constructor cfg now) = cfg"
  by (simp add: constructor_def)

lemma DEFAULT_well_configured: "well_configured DEFAULT_RATE_LIMIT_CONFIG"
  by (simp add: well_configured_def DEFAULT_RATE_LIMIT_CONFIG_def)

lemma sound_clock_run_ok:
  "clocks_ok sound_clock_run (constructor DEFAULT_RATE_LIMIT_CONFIG 0)"
  by code_simp

lemma waitForToken_halves:
  "waitForToken now1 now2 s =
     (case waitForToken_begin now1 s of
        (s1, None) \<Rightarrow> (s1, None)
      | (s1, Some msToWait) \<Rightarrow> (waitForToken_resume now2 s1, Some msToWait))"
  by (simp add: waitForToken_def waitForToken_begin_def waitForToken_resume_def Let_def)

text \<open>
  Claim C2. The token count is to satisfy \<open>0 \<le> tokens \<le> burstLimit\<close> at every
  observation point, whatever the sequence of operations and their timestamps. This is
  what \<open>waitForToken\<close> is documented to do ("wait until a token is available, then
  consume it"), and its fast path consumes only when \<open>tokens \<ge> 1\<close>. Its slow path
  does not: after the sleep it refills and consumes without looking at the count, and the
  count goes negative. Of twelve calls started together on the fresh default limiter,
  the eleventh and the twelfth both find no token and both sleep 2000 ms under a sound
  clock; at clock 2000 the eleventh refills one token and consumes it, and the twelfth
  refills nothing and consumes all the same: the count is \<open>-1\<close>, and \<open>getStatus\<close>
  reports \<open>-1\<close> tokens. A single caller gets there too when the clock has not advanced
  over its sleep: eleven acquisitions at a standing clock end at \<open>-1\<close>. In both runs
  binary64 gives the same values as the exact arithmetic.
\<close>

theorem waitForToken_consumes_without_token:
  "tokens emptied_limiter = 0
   \<and> waitForToken_begin 0 emptied_limiter = (eleventh_call_sleeping, Some 2000)
   \<and> waitForToken_begin 0 eleventh_call_sleeping = (twelfth_call_sleeping, Some 2000)
   \<and> tokens eleventh_call_done = 0
   \<and> tokens twelfth_call_done = - 1
   \<and> \<not> bucket_inv twelfth_call_done
   \<and> fst (fst (getStatus 2000 twelfth_call_done)) = - 1
   \<and> tokens (run frozen_clock_acquisitions (constructor DEFAULT_RATE_LIMIT_CONFIG 0)) = - 1"
  by code_simp

text \<open>
  Claim C3, as amended. In every state reached from the constructed limiter under a
  sound clock and a configuration with \<open>burstLimit \<ge> 1\<close> and \<open>requestsPerMinute > 0\<close>:
  a refill and \<open>getStatus\<close> at a clock read not earlier than the last refill do not
  decrease the token count; \<open>waitForToken\<close> lowers it by at most the one token it
  consumes; and \<open>handleRateLimitResponse\<close>, the one further operation that can
  decrease it, sets it to \<open>0\<close>.
\<close>

theorem decrease_only_by_consumption_or_throttling:
  assumes "well_configured cfg" and "clocks_ok ops (constructor cfg now0)"
    and "s = run ops (constructor cfg now0)"
  shows "(lastRefill s \<le> now \<longrightarrow> tokens s \<le> tokens (refillTokens now s))
       \<and> (lastRefill s \<le> now \<longrightarrow> tokens s \<le> tokens (snd (getStatus now s)))
       \<and> (clock_ok (WaitForToken now now2) s \<longrightarrow>
            tokens s - 1 \<le> tokens (fst (waitForToken now now2 s)))
       \<and> tokens (fst (handleRateLimitResponse r s)) = 0"
proof -
  have cs: "RateLimiter.config s = cfg" using assms(3) by simp
  have wc: "well_configured (RateLimiter.config (constructor cfg now0))"
    using assms(1) by simp
  have inv: "bucket_inv s"
    unfolding assms(3) using wc constructor_inv [OF assms(1)] assms(2) by (rule run_inv)
  have c: "0 \<le> requestsPerMinute (RateLimiter.config s)"
    using assms(1) cs by (simp add: well_configured_def)
  have le: "tokens s \<le> burstLimit (RateLimiter.config s)"
    using inv by (simp add: bucket_inv_def)
  have r: "tokens s \<le> tokens (refillTokens t s)" if "lastRefill s \<le> t" for t
    using refillTokens_mono [of s t] le c that by simp
  have w: "tokens s - 1 \<le> tokens (fst (waitForToken now now2 s))"
    if "clock_ok (WaitForToken now now2) s"
    using waitForToken_sound(2) [of s now now2] assms(1) cs inv that by simp
  show ?thesis using r w by (simp add: getStatus_def handleRateLimitResponse_def Let_def)
qed

theorem decrease_only_by_consumption_or_throttling_witness:
  "lastRefill (run sound_clock_run (constructor DEFAULT_RATE_LIMIT_CONFIG 0)) \<le> 70000
   \<and> clock_ok (WaitForToken 70000 70000) (run sound_clock_run (constructor DEFAULT_RATE_LIMIT_CONFIG 0))
   \<and> tokens (run sound_clock_run (constructor DEFAULT_RATE_LIMIT_CONFIG 0))
        \<le> tokens (refillTokens 70000 (run sound_clock_run (constructor DEFAULT_RATE_LIMIT_CONFIG 0)))
   \<and> tokens (run sound_clock_run (constructor DEFAULT_RATE_LIMIT_CONFIG 0))
        \<le> tokens (snd (getStatus 70000 (run sound_clock_run (constructor DEFAULT_RATE_LIMIT_CONFIG 0))))
   \<and> tokens (run sound_clock_run (constructor DEFAULT_RATE_LIMIT_CONFIG 0)) - 1
        \<le> tokens (fst (waitForToken 70000 70000
                          (run sound_clock_run (constructor DEFAULT_RATE_LIMIT_CONFIG 0))))
   \<and> tokens (fst (handleRateLimitResponse (Some 60)
                     (run sound_clock_run (constructor DEFAULT_RATE_LIMIT_CONFIG 0)))) = 0"
proof -
  have l: "lastRefill (run sound_clock_run (constructor DEFAULT_RATE_LIMIT_CONFIG 0)) \<le> 70000"
    by code_simp
  have w: "clock_ok (WaitForToken 70000 70000)
             (run sound_clock_run (constructor DEFAULT_RATE_LIMIT_CONFIG 0))"
    by code_simp
  from decrease_only_by_consumption_or_throttling
         [OF DEFAULT_well_configured sound_clock_run_ok refl, of 70000 70000 "Some 60"] l w
  show ?thesis by blast
qed

text \<open>
  The claim as stated fails at \<open>handleRateLimitResponse\<close>, which is not the consuming
  step of \<open>waitForToken\<close>: on the freshly constructed default limiter it takes the
  count from 10 to 0. A refill decreases the count too when its clock read is earlier
  than the last refill: constructed at 100000 and refilled at 0, the default limiter goes
  from 10 to \<open>-40\<close>.
\<close>

theorem decrease_only_by_consumption_or_throttling_counterexample:
  "tokens (constructor DEFAULT_RATE_LIMIT_CONFIG 0) = 10
   \<and> tokens (step (HandleRateLimitResponse (Some 60)) (constructor DEFAULT_RATE_LIMIT_CONFIG 0)) = 0
   \<and> tokens (constructor DEFAULT_RATE_LIMIT_CONFIG 100000) = 10
   \<and> tokens (step (RefillTokens 0) (constructor DEFAULT_RATE_LIMIT_CONFIG 100000)) = - 40"
  by (simp add: handleRateLimitResponse_def refillTokens_def constructor_def
        DEFAULT_RATE_LIMIT_CONFIG_def)

text \<open>
  Claim C4, as amended. For every natural number \<open>n\<close>,
  \<open>getBackoffDelay n = min (1000 \<times> backoffMultiplier ^ n) maxBackoffMs\<close>, which never
  exceeds \<open>maxBackoffMs\<close>; it is non-decreasing in \<open>n\<close> whenever
  \<open>backoffMultiplier \<ge> 1\<close>; and \<open>getBackoffDelay 0 = min 1000 maxBackoffMs\<close>, which is
  the base delay of 1000 ms whenever \<open>maxBackoffMs \<ge> 1000\<close>. Both conditions hold for
  the default configuration.
\<close>

theorem getBackoffDelay_spec:
  "getBackoffDelay s n
     = min (1000 * backoffMultiplier (RateLimiter.config s) ^ n) (maxBackoffMs (RateLimiter.config s))
   \<and> getBackoffDelay s n \<le> maxBackoffMs (RateLimiter.config s)
   \<and> (1 \<le> backoffMultiplier (RateLimiter.config s) \<longrightarrow> m \<le> n \<longrightarrow>
        getBackoffDelay s m \<le> getBackoffDelay s n)
   \<and> getBackoffDelay s 0 = min 1000 (maxBackoffMs (RateLimiter.config s))
   \<and> (1000 \<le> maxBackoffMs (RateLimiter.config s) \<longrightarrow> getBackoffDelay s 0 = 1000)"
proof -
  have "backoffMultiplier (RateLimiter.config s) ^ m \<le> backoffMultiplier (RateLimiter.config s) ^ n"
    if "1 \<le> backoffMultiplier (RateLimiter.config s)" "m \<le> n"
    using that by (rule power_increasing [rotated])
  then show ?thesis
    by (auto simp add: getBackoffDelay_def Let_def min_def)
qed

theorem getBackoffDelay_spec_witness:
  "1 \<le> backoffMultiplier DEFAULT_RATE_LIMIT_CONFIG \<and> (1::nat) \<le> 9
   \<and> 1000 \<le> maxBackoffMs DEFAULT_RATE_LIMIT_CONFIG
   \<and> getBackoffDelay (constructor DEFAULT_RATE_LIMIT_CONFIG 0) 9 = 300000
   \<and> getBackoffDelay (constructor DEFAULT_RATE_LIMIT_CONFIG 0) 1
        \<le> getBackoffDelay (constructor DEFAULT_RATE_LIMIT_CONFIG 0) 9
   \<and> getBackoffDelay (constructor DEFAULT_RATE_LIMIT_CONFIG 0) 0 = 1000"
  using getBackoffDelay_spec [of "constructor DEFAULT_RATE_LIMIT_CONFIG 0" 9 1]
  by (simp add: constructor_def DEFAULT_RATE_LIMIT_CONFIG_def)

text \<open>
  The claim as stated fails for the limiter configured with multiplier \<open>1/2\<close> and cap
  600: the delays are 600 and then 500.
\<close>

theorem getBackoffDelay_spec_counterexample:
  "getBackoffDelay (constructor slow_config 0) 0 = 600
   \<and> getBackoffDelay (constructor slow_config 0) 1 = 500"
  by (simp add: getBackoffDelay_def constructor_def slow_config_def DEFAULT_RATE_LIMIT_CONFIG_def)

section \<open>Properties of the retrying executor\<close>

declare withRateLimit_loop.simps [simp del]

lemma throttle_waits_append [simp]:
  "throttle_waits (xs @ ys) = throttle_waits xs @ throttle_waits ys"
  by (induction xs rule: throttle_waits.induct) simp_all

lemma waitForTokenW_calls [simp]: "calls (waitForTokenW clock w) = calls w"
  by (simp add: waitForTokenW_def split: prod.splits option.splits)

lemma waitForToken_config_pair:
  "waitForToken now1 now2 s = (s', r) \<Longrightarrow> RateLimiter.config s' = RateLimiter.config s"
  using waitForToken_config [of now1 now2 s] by simp

lemma waitForTokenW_config [simp]:
  "RateLimiter.config (limiter (waitForTokenW clock w)) = RateLimiter.config (limiter w)"
  by (auto simp add: waitForTokenW_def split: prod.splits option.splits
        dest: waitForToken_config_pair)

lemma waitForTokenW_throttle_waits [simp]:
  "throttle_waits (trace (waitForTokenW clock w)) = throttle_waits (trace w)"
  by (simp add: waitForTokenW_def split: prod.splits option.splits)

lemma invoke_simps [simp]:
  "calls (invoke w) = calls w + 1"
  "limiter (invoke w) = limiter w"
  "throttle_waits (trace (invoke w)) = throttle_waits (trace w)"
  by (simp_all add: invoke_def)

text \<open>The wait of the throttling handler depends on the hint and the configuration only.\<close>

lemma handleRateLimitResponse_wait:
  "RateLimiter.config s = RateLimiter.config s' \<Longrightarrow>
   snd (handleRateLimitResponse r s) = snd (handleRateLimitResponse r s')"
  by (simp add: handleRateLimitResponse_def split: option.splits)

lemma handleRateLimitResponseW_simps [simp]:
  "calls (handleRateLimitResponseW r w) = calls w"
  "RateLimiter.config (limiter (handleRateLimitResponseW r w)) = RateLimiter.config (limiter w)"
  "throttle_waits (trace (handleRateLimitResponseW r w)) =
     throttle_waits (trace w) @ [snd (handleRateLimitResponse r (limiter w))]"
  by (simp_all add: handleRateLimitResponseW_def handleRateLimitResponse_def Let_def)

subsection \<open>One iteration of the loop\<close>

lemma loop_exit:
  "4 \<le> attempt \<Longrightarrow>
   withRateLimit_loop clock fn onRetry attempt (Some e) w = (Inl e, w)"
  by (subst withRateLimit_loop.simps) (simp add: DEFAULT_RATE_LIMIT_CONFIG_def)

lemma loop_exit_world:
  "4 \<le> attempt \<Longrightarrow> snd (withRateLimit_loop clock fn onRetry attempt lastError w) = w"
  by (subst withRateLimit_loop.simps)
     (simp add: DEFAULT_RATE_LIMIT_CONFIG_def split: option.splits)

lemma loop_success:
  "attempt < 4 \<Longrightarrow> fn (calls w) = Inr v \<Longrightarrow>
   withRateLimit_loop clock fn onRetry attempt lastError w
     = (Inr v, invoke (waitForTokenW clock w))"
  by (subst withRateLimit_loop.simps) (simp add: DEFAULT_RATE_LIMIT_CONFIG_def Let_def)

lemma loop_throttled_step:
  "attempt < 4 \<Longrightarrow> fn (calls w) = Inl (RateLimitError msg hint) \<Longrightarrow>
   withRateLimit_loop clock fn onRetry attempt lastError w =
   withRateLimit_loop clock fn onRetry (attempt + 1) (Some (RateLimitError msg hint))
     (handleRateLimitResponseW hint (invoke (waitForTokenW clock w)))"
  by (subst withRateLimit_loop.simps) (simp add: DEFAULT_RATE_LIMIT_CONFIG_def Let_def)

lemma loop_transient_step:
  assumes "attempt < 4" and "fn (calls w) = Inl (Error msg)"
    and "real attempt < maxRetries (RateLimiter.config (limiter w))"
    and "\<forall>callback a e. onRetry = Some callback \<longrightarrow> callback a e = None"
  shows "\<exists>w1. withRateLimit_loop clock fn onRetry attempt lastError w =
               withRateLimit_loop clock fn onRetry (attempt + 1) (Some (Error msg)) w1
             \<and> calls w1 = calls w + 1
             \<and> RateLimiter.config (limiter w1) = RateLimiter.config (limiter w)"
  using assms
  by (subst withRateLimit_loop.simps)
     (auto simp add: DEFAULT_RATE_LIMIT_CONFIG_def Let_def shouldRetry_def split: option.splits)

subsection \<open>Runs of failures\<close>

text \<open>
  The loop entered at \<open>attempt\<close> when the next \<open>n\<close> invocations are throttled: it
  goes on to the next attempt every time, whatever the limiter's \<open>maxRetries\<close>, until
  the invocation after them succeeds or the loop counter passes 3.
\<close>

lemma loop_throttled:
  assumes "attempt + n \<le> 4"
    and "\<forall>k<n. fn (calls w + k) = Inl (RateLimitError (msg k) (hint k))"
    and "attempt + n < 4 \<longrightarrow> fn (calls w + n) = Inr v"
    and "n = 0 \<and> attempt = 4 \<longrightarrow> lastError = Some e0"
    and "withRateLimit_loop clock fn onRetry attempt lastError w = (res, w')"
  shows "res = (if attempt + n < 4 then Inr v
                else Inl (if n = 0 then e0 else RateLimitError (msg (n - 1)) (hint (n - 1))))
       \<and> calls w' = calls w + (if attempt + n < 4 then n + 1 else n)
       \<and> throttle_waits (trace w') = throttle_waits (trace w) @
            map (\<lambda>k. snd (handleRateLimitResponse (hint k) (limiter w))) [0..<n]"
  using assms
proof (induction n arbitrary: attempt w msg hint lastError e0)
  case 0
  show ?case
  proof (cases "attempt < 4")
    case True
    with 0 show ?thesis by (auto simp add: loop_success)
  next
    case False
    with 0 show ?thesis by (auto simp add: loop_exit)
  qed
next
  case (Suc n)
  let ?w = "handleRateLimitResponseW (hint 0) (invoke (waitForTokenW clock w))"
  let ?e = "RateLimitError (msg 0) (hint 0)"
  have a: "attempt < 4" using Suc.prems(1) by simp
  have f0: "fn (calls w) = Inl ?e" using Suc.prems(2) by force
  have step: "withRateLimit_loop clock fn onRetry (attempt + 1) (Some ?e) ?w = (res, w')"
    using Suc.prems(5) a f0 by (simp add: loop_throttled_step)
  have c: "calls ?w = calls w + 1" by simp
  have h1: "(attempt + 1) + n \<le> 4" using Suc.prems(1) by simp
  have h2: "\<forall>k<n. fn (calls ?w + k) = Inl (RateLimitError ((msg \<circ> Suc) k) ((hint \<circ> Suc) k))"
    using Suc.prems(2) c by (auto simp add: less_Suc_eq_0_disj)
  have h3: "(attempt + 1) + n < 4 \<longrightarrow> fn (calls ?w + n) = Inr v"
    using Suc.prems(3) c by simp
  have h4: "n = 0 \<and> attempt + 1 = 4 \<longrightarrow> Some ?e = Some ?e" by simp
  have cfg: "RateLimiter.config (limiter ?w) = RateLimiter.config (limiter w)" by simp
  note IH = Suc.IH [OF h1 h2 h3 h4 step]
  have w: "map (\<lambda>k. snd (handleRateLimitResponse ((hint \<circ> Suc) k) (limiter ?w))) [0..<n]
         = map (\<lambda>k. snd (handleRateLimitResponse (hint (Suc k)) (limiter w))) [0..<n]"
    using handleRateLimitResponse_wait [OF cfg] by simp
  have m: "map (\<lambda>k. snd (handleRateLimitResponse (hint k) (limiter w))) [0..<Suc n]
         = snd (handleRateLimitResponse (hint 0) (limiter w)) #
           map (\<lambda>k. snd (handleRateLimitResponse (hint (Suc k)) (limiter w))) [0..<n]"
    by (simp only: map_upt_Suc)
  have wt: "snd (handleRateLimitResponse (hint 0) (limiter (waitForTokenW clock w)))
          = snd (handleRateLimitResponse (hint 0) (limiter w))"
    by (rule handleRateLimitResponse_wait) simp
  show ?case
  proof (intro conjI)
    show "res = (if attempt + Suc n < 4 then Inr v
                 else Inl (if Suc n = 0 then e0
                           else RateLimitError (msg (Suc n - 1)) (hint (Suc n - 1))))"
      using IH by (cases n) auto
    show "calls w' = calls w + (if attempt + Suc n < 4 then Suc n + 1 else Suc n)"
      using IH c by auto
    show "throttle_waits (trace w') = throttle_waits (trace w) @
            map (\<lambda>k. snd (handleRateLimitResponse (hint k) (limiter w))) [0..<Suc n]"
      using IH unfolding w m by (simp add: wt)
  qed
qed

text \<open>
  The loop entered at \<open>attempt\<close> when the remaining \<open>4 - attempt\<close> invocations fail
  with another error, the limiter allows more than three retries and the observer does
  not throw: every remaining iteration runs, and the last error is thrown.
\<close>

lemma loop_transient:
  assumes "attempt + n = 4"
    and "\<forall>k<n. fn (calls w + k) = Inl (Error (msg k))"
    and "3 < maxRetries (RateLimiter.config (limiter w))"
    and "\<forall>callback a e. onRetry = Some callback \<longrightarrow> callback a e = None"
    and "n = 0 \<longrightarrow> lastError = Some e0"
  shows "fst (withRateLimit_loop clock fn onRetry attempt lastError w)
           = Inl (if n = 0 then e0 else Error (msg (n - 1)))
       \<and> calls (snd (withRateLimit_loop clock fn onRetry attempt lastError w)) = calls w + n"
  using assms
proof (induction n arbitrary: attempt w msg lastError e0)
  case 0
  then show ?case by (simp add: loop_exit)
next
  case (Suc n)
  have a: "attempt < 4" using Suc.prems(1) by simp
  have f0: "fn (calls w) = Inl (Error (msg 0))" using Suc.prems(2) by force
  have r: "real attempt < maxRetries (RateLimiter.config (limiter w))"
    using a Suc.prems(3) by simp
  obtain w1 where w1: "withRateLimit_loop clock fn onRetry attempt lastError w =
               withRateLimit_loop clock fn onRetry (attempt + 1) (Some (Error (msg 0))) w1"
     "calls w1 = calls w + 1" "RateLimiter.config (limiter w1) = RateLimiter.config (limiter w)"
    using loop_transient_step [where attempt = attempt and fn = fn and w = w and msg = "msg 0"
        and onRetry = onRetry and clock = clock and lastError = lastError] a f0 r Suc.prems(4)
    by blast
  have h1: "(attempt + 1) + n = 4" using Suc.prems(1) by simp
  have h2: "\<forall>k<n. fn (calls w1 + k) = Inl (Error ((msg \<circ> Suc) k))"
    using Suc.prems(2) w1(2) by (auto simp add: less_Suc_eq_0_disj)
  have h3: "3 < maxRetries (RateLimiter.config (limiter w1))" using Suc.prems(3) w1(3) by simp
  have h5: "n = 0 \<longrightarrow> Some (Error (msg 0)) = Some (Error (msg 0))" by simp
  note IH = Suc.IH [OF h1 h2 h3 Suc.prems(4) h5]
  show ?case unfolding w1(1) using IH w1(2) by (cases n) auto
qed

text \<open>
  Whatever the wrapped function and the observer do, the loop invokes the function at most
  \<open>4 - attempt\<close> times.
\<close>

lemma loop_calls_bound:
  "4 \<le> attempt + n \<Longrightarrow>
   calls (snd (withRateLimit_loop clock fn onRetry attempt lastError w)) \<le> calls w + n"
proof (induction n arbitrary: attempt lastError w onRetry)
  case 0
  then show ?case by (simp add: loop_exit_world)
next
  case (Suc n)
  show ?case
  proof (cases "4 \<le> attempt")
    case True
    then show ?thesis by (simp add: loop_exit_world)
  next
    case False
    have IH: "calls (snd (withRateLimit_loop clock fn cb (Suc attempt) le' w')) \<le> Suc (calls w + n)"
      if "calls w' = Suc (calls w)" for le' w' cb
      using Suc.IH [of "Suc attempt" cb le' w'] Suc.prems that by simp
    from False show ?thesis
      by (subst withRateLimit_loop.simps)
         (simp add: DEFAULT_RATE_LIMIT_CONFIG_def Let_def IH
            split: sum.splits error.splits option.splits)
  qed
qed

text \<open>
  Claim C1, as amended. When an invocation fails with a \<open>RateLimitError\<close>, the executor
  calls \<open>handleRateLimitResponse\<close> with the error's retry-after hint and goes on to the
  next attempt without consulting \<open>shouldRetry\<close>, so for any \<open>maxRetries\<close> of the
  limiter; but every such retry uses up an iteration of the attempt loop. Hence, when the
  first \<open>n \<le> 4\<close> invocations are throttled and, for \<open>n < 4\<close>, the next one returns
  \<open>v\<close>: the handler is called \<open>n\<close> times, with the waits of the \<open>n\<close> hints; for
  \<open>n < 4\<close> the executor returns \<open>v\<close> after \<open>n + 1\<close> invocations; for \<open>n = 4\<close> it
  throws the fourth \<open>RateLimitError\<close> after
  \<open>DEFAULT_RATE_LIMIT_CONFIG.maxRetries + 1 = 4\<close> invocations.
\<close>

theorem throttled_retries_bounded_by_attempt_loop:
  assumes "n \<le> 4"
    and "\<forall>k<n. fn (calls w + k) = Inl (RateLimitError (msg k) (hint k))"
    and "n < 4 \<longrightarrow> fn (calls w + n) = Inr v"
  shows "fst (withRateLimit clock fn onRetry w)
           = (if n < 4 then Inr v else Inl (RateLimitError (msg 3) (hint 3)))
       \<and> calls (snd (withRateLimit clock fn onRetry w)) = calls w + (if n < 4 then n + 1 else 4)
       \<and> throttle_waits (trace (snd (withRateLimit clock fn onRetry w)))
           = throttle_waits (trace w) @
             map (\<lambda>k. snd (handleRateLimitResponse (hint k) (limiter w))) [0..<n]"
proof -
  obtain res w' where r: "withRateLimit_loop clock fn onRetry 0 None w = (res, w')"
    by (cases "withRateLimit_loop clock fn onRetry 0 None w")
  have h4: "n = 0 \<and> (0::nat) = 4 \<longrightarrow> None = Some (Error [])" by simp
  from loop_throttled [of 0 n fn w msg hint v None "Error []" clock onRetry res w']
    assms h4 r
  have "res = (if n < 4 then Inr v
                else Inl (if n = 0 then Error [] else RateLimitError (msg (n - 1)) (hint (n - 1))))
       \<and> calls w' = calls w + (if n < 4 then n + 1 else n)
       \<and> throttle_waits (trace w') = throttle_waits (trace w) @
            map (\<lambda>k. snd (handleRateLimitResponse (hint k) (limiter w))) [0..<n]"
    by simp
  moreover have "n = 4" if "\<not> n < 4" using that assms(1) by simp
  ultimately show ?thesis
    by (auto simp add: withRateLimit_def r)
qed

text \<open>
  A limiter that allows no retry at all, and a function throttled twice with a hint of 7 s:
  the executor waits 7000 ms twice and returns the result of the third invocation.
\<close>

theorem throttled_retries_bounded_by_attempt_loop_witness:
  "\<not> shouldRetry (limiter (new_world impatient_config 0)) 0
   \<and> fst (withRateLimit ticking_clock throttled_twice None (new_world impatient_config 0)) = Inr 42
   \<and> calls (snd (withRateLimit ticking_clock throttled_twice None
                    (new_world impatient_config 0))) = 3
   \<and> throttle_waits (trace (snd (withRateLimit ticking_clock throttled_twice None
                                    (new_world impatient_config 0)))) = [7000, 7000]"
proof -
  have h1: "(2::nat) \<le> 4" by simp
  have h2: "\<forall>k<2. throttled_twice (calls (new_world impatient_config 0) + k)
              = Inl (RateLimitError ''Rate limited by Reddit'' (Some 7))"
    by (simp add: throttled_twice_def new_world_def)
  have h3: "(2::nat) < 4 \<longrightarrow>
              throttled_twice (calls (new_world impatient_config 0) + 2) = Inr 42"
    by (simp add: throttled_twice_def new_world_def)
  have u: "[0..<2] = [0, 1]" by (simp add: upt_rec)
  from throttled_retries_bounded_by_attempt_loop
         [of 2 throttled_twice "new_world impatient_config 0"
             "\<lambda>k. ''Rate limited by Reddit''" "\<lambda>k. Some 7" 42 ticking_clock None, OF h1 h2 h3]
  show ?thesis
    by (simp add: u new_world_def handleRateLimitResponse_def shouldRetry_def constructor_def
          impatient_config_def DEFAULT_RATE_LIMIT_CONFIG_def)
qed

text \<open>
  The claim as stated, that the attempts of an all-throttled execution are not bounded
  by \<open>maxRetries\<close>, fails: a function that is throttled four times and would return on its
  fifth invocation is invoked four times, and the executor throws the last
  \<open>RateLimitError\<close>.
\<close>

theorem throttled_retries_bounded_by_attempt_loop_counterexample:
  "throttled_four_times 4 = Inr 42
   \<and> fst (withRateLimit ticking_clock throttled_four_times None
            (new_world DEFAULT_RATE_LIMIT_CONFIG 0))
       = Inl (RateLimitError ''Rate limited by Reddit'' (Some 1))
   \<and> calls (snd (withRateLimit ticking_clock throttled_four_times None
                    (new_world DEFAULT_RATE_LIMIT_CONFIG 0))) = 4"
  by code_simp

text \<open>
  Claim C10. The attempt loop of \<open>withRateLimit\<close> is bounded by
  \<open>DEFAULT_RATE_LIMIT_CONFIG.maxRetries\<close>, not by the \<open>maxRetries\<close> of the limiter
  passed in, which only \<open>shouldRetry\<close> reads. For a limiter configured with a larger
  \<open>maxRetries\<close> and a function whose invocations all fail with an error other than
  \<open>RateLimitError\<close>, the executor makes at most
  \<open>DEFAULT_RATE_LIMIT_CONFIG.maxRetries + 1\<close> invocations; when the observer does not
  throw it makes exactly 4 and throws the fourth error, although \<open>shouldRetry\<close> of the
  limiter still holds at attempt 3.
\<close>

theorem attempts_bounded_by_default_maxRetries:
  assumes "maxRetries DEFAULT_RATE_LIMIT_CONFIG < maxRetries (RateLimiter.config (limiter w))"
    and "\<forall>k<4. fn (calls w + k) = Inl (Error (msg k))"
  shows "real (calls (snd (withRateLimit clock fn onRetry w)) - calls w)
           \<le> maxRetries DEFAULT_RATE_LIMIT_CONFIG + 1
       \<and> shouldRetry (limiter w) 3
       \<and> ((\<forall>callback a e. onRetry = Some callback \<longrightarrow> callback a e = None) \<longrightarrow>
            calls (snd (withRateLimit clock fn onRetry w)) = calls w + 4
            \<and> fst (withRateLimit clock fn onRetry w) = Inl (Error (msg 3)))"
proof -
  have m: "3 < maxRetries (RateLimiter.config (limiter w))"
    using assms(1) by (simp add: DEFAULT_RATE_LIMIT_CONFIG_def)
  have "calls (snd (withRateLimit clock fn onRetry w)) \<le> calls w + 4"
    unfolding withRateLimit_def by (rule loop_calls_bound) simp
  then have b: "real (calls (snd (withRateLimit clock fn onRetry w)) - calls w)
                  \<le> maxRetries DEFAULT_RATE_LIMIT_CONFIG + 1"
    by (simp add: DEFAULT_RATE_LIMIT_CONFIG_def)
  have s: "shouldRetry (limiter w) 3" using m by (simp add: shouldRetry_def)
  have e: "calls (snd (withRateLimit clock fn onRetry w)) = calls w + 4
            \<and> fst (withRateLimit clock fn onRetry w) = Inl (Error (msg 3))"
    if "\<forall>callback a e. onRetry = Some callback \<longrightarrow> callback a e = None"
    using loop_transient [of 0 4 fn w msg onRetry None "Error []" clock] assms(2) m that
    by (simp add: withRateLimit_def)
  from b s e show ?thesis by blast
qed

text \<open>A limiter configured with ten retries, and a function that always fails with a 500.\<close>

theorem attempts_bounded_by_default_maxRetries_witness:
  "maxRetries DEFAULT_RATE_LIMIT_CONFIG < maxRetries patient_config
   \<and> shouldRetry (limiter (new_world patient_config 0)) 3
   \<and> calls (snd (withRateLimit ticking_clock always_failing None (new_world patient_config 0))) = 4
   \<and> fst (withRateLimit ticking_clock always_failing None (new_world patient_config 0))
       = Inl (Error ''Reddit API error: 500'')"
proof -
  have h1: "maxRetries DEFAULT_RATE_LIMIT_CONFIG
              < maxRetries (RateLimiter.config (limiter (new_world patient_config 0)))"
    by (simp add: new_world_def constructor_def patient_config_def DEFAULT_RATE_LIMIT_CONFIG_def)
  have h2: "\<forall>k<4. always_failing (calls (new_world patient_config 0) + k)
              = Inl (Error ''Reddit API error: 500'')"
    by (simp add: always_failing_def)
  from attempts_bounded_by_default_maxRetries
         [of "new_world patient_config 0" always_failing "\<lambda>k. ''Reddit API error: 500''"
             ticking_clock None, OF h1 h2]
  show ?thesis
    by (simp add: new_world_def patient_config_def DEFAULT_RATE_LIMIT_CONFIG_def)
qed

section \<open>Properties of the client\<close>

lemma search_loop_responses:
  "search_loop request query tr lm subreddits allPosts t =
     (allPosts @ concat (map decoded_posts
                 (fst (responses request (map (searchEndpoint query tr lm) subreddits) t))),
      snd (responses request (map (searchEndpoint query tr lm) subreddits) t))"
proof (induction subreddits arbitrary: allPosts t)
  case Nil
  show ?case by simp
next
  case (Cons s subreddits)
  obtain r t1 where r: "request t (searchEndpoint query tr lm s) = (r, t1)"
    by (cases "request t (searchEndpoint query tr lm s)")
  obtain rs t2
    where rs: "responses request (map (searchEndpoint query tr lm) subreddits) t1 = (rs, t2)"
    by (cases "responses request (map (searchEndpoint query tr lm) subreddits) t1")
  show ?case
    by (cases r) (simp_all add: r rs Cons.IH decoded_posts_def)
qed

lemma length_responses: "length (fst (responses request endpoints t)) = length endpoints"
proof (induction endpoints arbitrary: t)
  case Nil
  show ?case by simp
next
  case (Cons e endpoints)
  obtain r t1 where r: "request t e = (r, t1)"
    by (cases "request t e")
  obtain rs t2 where rs: "responses request endpoints t1 = (rs, t2)"
    by (cases "responses request endpoints t1")
  from Cons.IH [of t1] show ?case by (simp add: r rs)
qed

text \<open>
  Claim C5. \<open>search\<close> has partial-failure semantics: for every list of subreddits and
  every behaviour of the transport, \<open>search\<close> returns normally; it requests every
  subreddit once, in input order, whether or not earlier requests failed; and its result
  is the concatenation, in that order, of the decoded posts of the requests that
  succeeded, a failed request contributing nothing.
\<close>

theorem search_partial_failure:
  "search request query subreddits options t =
     (Inr (concat (map decoded_posts
             (fst (responses request
                     (map (searchEndpoint query
                             (case timeRange options of None \<Rightarrow> day | Some r \<Rightarrow> r)
                             (case limit options of None \<Rightarrow> 25 | Some n \<Rightarrow> n))
                        subreddits) t)))),
      snd (responses request
             (map (searchEndpoint query
                     (case timeRange options of None \<Rightarrow> day | Some r \<Rightarrow> r)
                     (case limit options of None \<Rightarrow> 25 | Some n \<Rightarrow> n))
                subreddits) t))
   \<and> length (fst (responses request
                     (map (searchEndpoint query
                             (case timeRange options of None \<Rightarrow> day | Some r \<Rightarrow> r)
                             (case limit options of None \<Rightarrow> 25 | Some n \<Rightarrow> n))
                        subreddits) t)) = length subreddits"
  by (simp add: search_def Let_def search_loop_responses length_responses)

text \<open>
  Three subreddits, the request for the second of which fails: the posts of the first
  and the third are returned, and three requests have been made.
\<close>

theorem search_partial_failure_witness:
  "search flaky_request ''pdf api'' [''webdev'', ''SaaS'', ''node'']
     \<lparr> timeRange = None, limit = None \<rparr> 0
   = (Inr [transformPost (a_raw ''0''), transformPost (a_raw ''2'')], 3)"
proof -
  have "responses flaky_request
          (map (searchEndpoint ''pdf api'' day 25) [''webdev'', ''SaaS'', ''node'']) 0
        = ([Inr \<lparr> children = [a_raw ''0''], after = None \<rparr>,
            Inl (Error ''Reddit API error: 500''),
            Inr \<lparr> children = [a_raw ''2''], after = None \<rparr>], 3)"
    by code_simp
  with search_partial_failure
         [of flaky_request "''pdf api''" "[''webdev'', ''SaaS'', ''node'']"
             "\<lparr> timeRange = None, limit = None \<rparr>" 0]
  show ?thesis by (simp add: decoded_posts_def)
qed

text \<open>
  Claim C9, as amended. \<open>createRedditClient\<close> fails with the configuration error
  exactly when the client id or the client secret is absent or empty. The error is fatal
  and raised before any request: \<open>runCollection\<close> then fails with it at once, for every
  transport and with the outside world untouched, and \<open>main\<close> exits with status 1;
  nothing is retried. An absent or empty user-agent string is no error: the client is
  built with the default user agent. On success the client holds the given credentials,
  a fresh default limiter and no access token.
\<close>

theorem createRedditClient_validation:
  "(createRedditClient env now =
      Inl (Error ''Missing REDDIT_CLIENT_ID or REDDIT_CLIENT_SECRET environment variables''))
     = (falsy (REDDIT_CLIENT_ID env) \<or> falsy (REDDIT_CLIENT_SECRET env))
   \<and> (falsy (REDDIT_CLIENT_ID env) \<or> falsy (REDDIT_CLIENT_SECRET env) \<longrightarrow>
        runCollection request dates env now w =
          (Inl (Error ''Missing REDDIT_CLIENT_ID or REDDIT_CLIENT_SECRET environment variables''), w)
        \<and> main request dates env now w = (1, w))
   \<and> (\<not> falsy (REDDIT_CLIENT_ID env) \<and> \<not> falsy (REDDIT_CLIENT_SECRET env) \<longrightarrow>
        createRedditClient env now =
          Inr \<lparr> config = \<lparr> clientId = the (REDDIT_CLIENT_ID env),
                           clientSecret = the (REDDIT_CLIENT_SECRET env),
                           userAgent = (if falsy (REDDIT_USER_AGENT env)
                                        then ''LeadOwl/1.0.0 (https://leadowl.techyowls.io)''
                                        else the (REDDIT_USER_AGENT env)) \<rparr>,
                rateLimiter = constructor DEFAULT_RATE_LIMIT_CONFIG now,
                accessToken = None, tokenExpiry = 0 \<rparr>)"
proof -
  have c: "(createRedditClient env now =
      Inl (Error ''Missing REDDIT_CLIENT_ID or REDDIT_CLIENT_SECRET environment variables''))
     = (falsy (REDDIT_CLIENT_ID env) \<or> falsy (REDDIT_CLIENT_SECRET env))"
    by (simp add: createRedditClient_def Let_def)
  have r: "runCollection request dates env now w =
          (Inl (Error ''Missing REDDIT_CLIENT_ID or REDDIT_CLIENT_SECRET environment variables''), w)
        \<and> main request dates env now w = (1, w)"
    if "falsy (REDDIT_CLIENT_ID env) \<or> falsy (REDDIT_CLIENT_SECRET env)"
    using that c by (simp add: main_def runCollection_def RedditCollector_constructor_def)
  have s: "createRedditClient env now =
          Inr \<lparr> config = \<lparr> clientId = the (REDDIT_CLIENT_ID env),
                           clientSecret = the (REDDIT_CLIENT_SECRET env),
                           userAgent = (if falsy (REDDIT_USER_AGENT env)
                                        then ''LeadOwl/1.0.0 (https://leadowl.techyowls.io)''
                                        else the (REDDIT_USER_AGENT env)) \<rparr>,
                rateLimiter = constructor DEFAULT_RATE_LIMIT_CONFIG now,
                accessToken = None, tokenExpiry = 0 \<rparr>"
    if "\<not> falsy (REDDIT_CLIENT_ID env) \<and> \<not> falsy (REDDIT_CLIENT_SECRET env)"
    using that by (simp add: createRedditClient_def RedditClient_constructor_def Let_def)
  from c r s show ?thesis by blast
qed

theorem createRedditClient_validation_witness:
  "falsy (REDDIT_CLIENT_SECRET env_without_secret)
   \<and> createRedditClient env_without_secret 0 =
       Inl (Error ''Missing REDDIT_CLIENT_ID or REDDIT_CLIENT_SECRET environment variables'')
   \<and> runCollection counting_request ticking_clock env_without_secret 0 0 =
       (Inl (Error ''Missing REDDIT_CLIENT_ID or REDDIT_CLIENT_SECRET environment variables''), 0)
   \<and> main counting_request ticking_clock env_without_secret 0 0 = (1, 0)"
  using createRedditClient_validation [of env_without_secret 0 counting_request ticking_clock 0]
  by (simp add: env_without_secret_def falsy_def)

text \<open>
  The claim as stated fails for the user-agent string: with the id and the secret set
  and no user agent, a client is returned, with the default user agent.
\<close>

theorem createRedditClient_validation_counterexample:
  "falsy (REDDIT_USER_AGENT env_without_user_agent)
   \<and> createRedditClient env_without_user_agent 0 =
       Inr (RedditClient_constructor
              \<lparr> clientId = ''my-client-id'', clientSecret = ''my-client-secret'',
                userAgent = ''LeadOwl/1.0.0 (https://leadowl.techyowls.io)'' \<rparr> 0)"
  by (simp add: createRedditClient_def env_without_user_agent_def falsy_def)

section \<open>Properties of the collector\<close>

subsection \<open>Deduplication\<close>

lemma dedup_ids:
  "set (map RedditPost.id' (deduplicatePosts_filter seen posts))
     = set (map RedditPost.id' posts) - seen"
  by (induction posts arbitrary: seen) auto

lemma dedup_distinct:
  "distinct (map RedditPost.id' (deduplicatePosts_filter seen posts))"
  by (induction posts arbitrary: seen) (auto simp add: dedup_ids simp del: set_map)

lemma dedup_subseq: "subseq (deduplicatePosts_filter seen posts) posts"
  by (induction posts arbitrary: seen) auto

text \<open>A post that is kept is the first post of the input with its id.\<close>

lemma dedup_first:
  "p \<in> set (deduplicatePosts_filter seen posts) \<Longrightarrow>
   find (\<lambda>q. RedditPost.id' q = RedditPost.id' p) posts = Some p"
proof (induction posts arbitrary: seen)
  case Nil
  then show ?case by simp
next
  case (Cons post posts)
  show ?case
  proof (cases "RedditPost.id' post \<in> seen")
    case True
    with Cons.prems have p: "p \<in> set (deduplicatePosts_filter seen posts)" by simp
    then have "RedditPost.id' p \<in> set (map RedditPost.id' (deduplicatePosts_filter seen posts))"
      by simp
    then have "RedditPost.id' p \<notin> seen" unfolding dedup_ids by simp
    with True have "RedditPost.id' post \<noteq> RedditPost.id' p" by auto
    with Cons.IH [OF p] show ?thesis by simp
  next
    case False
    show ?thesis
    proof (cases "p = post")
      case True
      then show ?thesis by simp
    next
      case ne: False
      with Cons.prems False
      have p: "p \<in> set (deduplicatePosts_filter (insert (RedditPost.id' post) seen) posts)"
        by simp
      then have "RedditPost.id' p \<in> set (map RedditPost.id'
                  (deduplicatePosts_filter (insert (RedditPost.id' post) seen) posts))"
        by simp
      then have "RedditPost.id' p \<noteq> RedditPost.id' post" unfolding dedup_ids by simp
      with Cons.IH [OF p] show ?thesis by simp
    qed
  qed
qed

text \<open>
  Claim C6. \<open>deduplicatePosts\<close> is a stable first-occurrence filter: for every list of
  posts the output is a subsequence of the input (relative order preserved), no id occurs
  twice in it, it has exactly the ids of the input, and each post in it is the first post
  of the input with its id, so every later post with an id already met is dropped. For
  ids \<open>[a, b, a, c]\<close> with \<open>a\<close>, \<open>b\<close>, \<open>c\<close> distinct the output ids are \<open>[a, b, c]\<close>.
\<close>

theorem deduplicatePosts_first_occurrence:
  "subseq (deduplicatePosts posts) posts
   \<and> distinct (map RedditPost.id' (deduplicatePosts posts))
   \<and> set (map RedditPost.id' (deduplicatePosts posts)) = set (map RedditPost.id' posts)
   \<and> (\<forall>p \<in> set (deduplicatePosts posts).
         find (\<lambda>q. RedditPost.id' q = RedditPost.id' p) posts = Some p)
   \<and> (map RedditPost.id' posts = [a, b, a, c] \<longrightarrow> distinct [a, b, c] \<longrightarrow>
         map RedditPost.id' (deduplicatePosts posts) = [a, b, c])"
proof -
  have ex: "map RedditPost.id' (deduplicatePosts posts) = [a, b, c]"
    if "map RedditPost.id' posts = [a, b, a, c]" "distinct [a, b, c]"
  proof -
    from that(1) obtain p1 p2 p3 p4 where "posts = [p1, p2, p3, p4]"
      "RedditPost.id' p1 = a" "RedditPost.id' p2 = b" "RedditPost.id' p3 = a"
      "RedditPost.id' p4 = c"
      by (auto simp add: map_eq_Cons_conv)
    with that(2) show ?thesis by (auto simp add: deduplicatePosts_def)
  qed
  show ?thesis
    using ex dedup_first [of _ "{}" posts]
    by (simp add: deduplicatePosts_def dedup_subseq dedup_distinct dedup_ids del: set_map)
qed

theorem deduplicatePosts_first_occurrence_witness:
  "map RedditPost.id'
     [a_post ''a'' ''first'' [], a_post ''b'' ''second'' [], a_post ''a'' ''third'' [],
      a_post ''c'' ''fourth'' []] = [''a'', ''b'', ''a'', ''c'']
   \<and> distinct [''a'', ''b'', ''c'']
   \<and> map RedditPost.id' (deduplicatePosts
      [a_post ''a'' ''first'' [], a_post ''b'' ''second'' [], a_post ''a'' ''third'' [],
       a_post ''c'' ''fourth'' []]) = [''a'', ''b'', ''c'']
   \<and> deduplicatePosts
      [a_post ''a'' ''first'' [], a_post ''b'' ''second'' [], a_post ''a'' ''third'' [],
       a_post ''c'' ''fourth'' []]
     = [a_post ''a'' ''first'' [], a_post ''b'' ''second'' [], a_post ''c'' ''fourth'' []]"
proof -
  have h1: "map RedditPost.id'
      [a_post ''a'' ''first'' [], a_post ''b'' ''second'' [], a_post ''a'' ''third'' [],
       a_post ''c'' ''fourth'' []] = [''a'', ''b'', ''a'', ''c'']"
    by (simp add: a_post_def)
  have h2: "distinct [''a'', ''b'', ''c'']" by simp
  have h3: "deduplicatePosts
      [a_post ''a'' ''first'' [], a_post ''b'' ''second'' [], a_post ''a'' ''third'' [],
       a_post ''c'' ''fourth'' []]
     = [a_post ''a'' ''first'' [], a_post ''b'' ''second'' [], a_post ''c'' ''fourth'' []]"
    by (simp add: deduplicatePosts_def a_post_def)
  from deduplicatePosts_first_occurrence
         [of "[a_post ''a'' ''first'' [], a_post ''b'' ''second'' [], a_post ''a'' ''third'' [],
               a_post ''c'' ''fourth'' []]" "''a''" "''b''" "''c''"] h1 h2 h3
  show ?thesis by simp
qed

subsection \<open>Strings\<close>

lemma startsWith_prefix: "startsWith s p = prefix p s"
  by (induction s p rule: startsWith.induct) auto

lemma includes_string_sublist: "includes_string s k = sublist k s"
  by (induction s) (simp_all add: startsWith_prefix sublist_Cons_right)

lemma sublist_single: "sublist [x] ys = (x \<in> set ys)"
  by (induction ys) (simp_all add: sublist_Cons_right)

text \<open>The intent phrases are in lower case already.\<close>

lemma INTENT_KEYWORDS_lower: "map toLowerCase INTENT_KEYWORDS = INTENT_KEYWORDS"
  by code_simp

lemma intent_keyword_lower: "k \<in> set INTENT_KEYWORDS \<Longrightarrow> toLowerCase k = k"
proof -
  assume "k \<in> set INTENT_KEYWORDS"
  then obtain i where i: "i < length INTENT_KEYWORDS" "INTENT_KEYWORDS ! i = k"
    by (auto simp add: in_set_conv_nth)
  then have "map toLowerCase INTENT_KEYWORDS ! i = toLowerCase k" by simp
  then show ?thesis using i by (simp only: INTENT_KEYWORDS_lower)
qed

subsection \<open>Intent filter\<close>

text \<open>
  Claim C7, as amended. \<open>hasGenuineIntent\<close> is a pure predicate on the lead's title
  and content: with \<open>text\<close> the lower-cased \<open>title + " " + content\<close>, it holds iff
  (some intent phrase occurs in \<open>text\<close>, case-insensitively, or \<open>text\<close> contains a
  question mark or starts, without any trimming, with one of "how", "what", "which",
  "any") and (the content is longer than 50 or the title longer than 30).
\<close>

theorem hasGenuineIntent_untrimmed:
  "hasGenuineIntent lead =
     (let text' = toLowerCase (StoredLead.title lead @ '' '' @ StoredLead.content lead)
      in ((\<exists>k \<in> set INTENT_KEYWORDS. sublist (toLowerCase k) text')
          \<or> (CHR ''?'' \<in> set text' \<or> (\<exists>p \<in> set QUESTION_OPENERS. prefix p text')))
         \<and> (length (StoredLead.content lead) > 50 \<or> length (StoredLead.title lead) > 30))"
  by (simp add: hasGenuineIntent_def Let_def list_ex_iff includes_string_sublist
        startsWith_prefix sublist_single intent_keyword_lower QUESTION_OPENERS_def)

theorem hasGenuineIntent_untrimmed_witness:
  "hasGenuineIntent lead_looking_for
   \<and> sublist (toLowerCase ''looking for'')
        (toLowerCase (StoredLead.title lead_looking_for @ '' '' @ StoredLead.content lead_looking_for))
   \<and> length (StoredLead.title lead_looking_for) > 30"
proof -
  have "hasGenuineIntent lead_looking_for" by code_simp
  moreover have "sublist (toLowerCase ''looking for'')
        (toLowerCase (StoredLead.title lead_looking_for @ '' '' @ StoredLead.content lead_looking_for))"
    by code_simp
  moreover have "length (StoredLead.title lead_looking_for) > 30" by code_simp
  ultimately show ?thesis
    using hasGenuineIntent_untrimmed [of lead_looking_for] by simp
qed

text \<open>
  The claim as stated, with the trimming, fails: a title of 40 characters that
  starts with a space and then "how", with empty content, is a question after trimming,
  but the source tests \<open>startsWith\<close> on the untrimmed text and rejects the lead.
\<close>

theorem hasGenuineIntent_untrimmed_counterexample:
  "\<not> hasGenuineIntent lead_indented_question \<and> hasGenuineIntent_spec lead_indented_question"
  by code_simp

subsection \<open>Matched keywords\<close>

lemma foldl_push:
  "foldl (\<lambda>matched keyword. if P keyword then matched @ [keyword] else matched) m ks
     = m @ filter P ks"
  by (induction ks arbitrary: m) simp_all

lemma foldl_foldl_push:
  "foldl (\<lambda>matched keywords.
            foldl (\<lambda>matched keyword. if P keyword then matched @ [keyword] else matched)
              matched keywords) m kss
     = m @ filter P (concat kss)"
  by (induction kss arbitrary: m) (simp_all add: foldl_push)

lemma Set_spread_distinct: "distinct (elems @ xs) \<Longrightarrow> Set_spread elems xs = elems @ xs"
  by (induction xs arbitrary: elems) auto

lemma PRODUCT_KEYWORDS_distinct: "distinct (concat (map snd PRODUCT_KEYWORDS))"
  by (simp add: PRODUCT_KEYWORDS_def)

text \<open>
  Claim C8, as amended. The matching is computed against the entire taxonomy: for every
  post, \<open>findMatchedKeywords\<close>, which becomes the lead's \<open>matchedKeywords\<close>, contains
  exactly those keywords of all products, in the order of the taxonomy and without
  duplicates, whose lower-cased form is a substring of the lower-cased text
  \<open>title + " " + content\<close>, that is of title and content joined by a single space.
\<close>

theorem findMatchedKeywords_whole_taxonomy:
  "findMatchedKeywords post =
     filter (\<lambda>k. sublist (toLowerCase k)
                   (toLowerCase (RedditPost.title post @ '' '' @ RedditPost.content post)))
       (concat (map snd PRODUCT_KEYWORDS))
   \<and> set (findMatchedKeywords post) =
       {k \<in> set (concat (map snd PRODUCT_KEYWORDS)).
          sublist (toLowerCase k)
            (toLowerCase (RedditPost.title post @ '' '' @ RedditPost.content post))}
   \<and> distinct (findMatchedKeywords post)
   \<and> matchedKeywords (transformToLead post now) = findMatchedKeywords post"
proof -
  let ?P = "\<lambda>k. sublist (toLowerCase k)
                   (toLowerCase (RedditPost.title post @ '' '' @ RedditPost.content post))"
  have d: "distinct (filter ?P (concat (map snd PRODUCT_KEYWORDS)))"
    using PRODUCT_KEYWORDS_distinct by (rule distinct_filter)
  have e: "findMatchedKeywords post = filter ?P (concat (map snd PRODUCT_KEYWORDS))"
    using Set_spread_distinct [of "[]" "filter ?P (concat (map snd PRODUCT_KEYWORDS))"] d
    by (simp add: findMatchedKeywords_def Let_def foldl_foldl_push includes_string_sublist)
  have s: "set (filter ?P (concat (map snd PRODUCT_KEYWORDS)))
             = {k \<in> set (concat (map snd PRODUCT_KEYWORDS)). ?P k}"
    by (rule set_filter)
  show ?thesis
    unfolding e using d s by (simp add: transformToLead_def Let_def e)
qed

text \<open>A post about screenshots and PDFs matches keywords of two products.\<close>

theorem findMatchedKeywords_whole_taxonomy_witness:
  "matchedKeywords (transformToLead post_two_products 0)
     = [''screenshot api'', ''pdf api'', ''html to pdf'', ''invoice pdf api'']"
proof -
  have "findMatchedKeywords post_two_products
          = [''screenshot api'', ''pdf api'', ''html to pdf'', ''invoice pdf api'']"
    by code_simp
  with findMatchedKeywords_whole_taxonomy [of post_two_products 0]
  show ?thesis by simp
qed

text \<open>
  The claim as stated, with the plain concatenation of title and content, fails: for the
  title "screenshot" and the content "api" the source matches "screenshot api" across
  the space it inserts, while no keyword occurs in "screenshotapi".
\<close>

theorem findMatchedKeywords_whole_taxonomy_counterexample:
  "findMatchedKeywords post_across_boundary = [''screenshot api'']
   \<and> ''screenshot api'' \<notin> matchedKeywords_spec post_across_boundary"
proof -
  have a: "findMatchedKeywords post_across_boundary = [''screenshot api'']"
    by code_simp
  have b: "\<not> sublist (toLowerCase ''screenshot api'')
               (toLowerCase (RedditPost.title post_across_boundary
                               @ RedditPost.content post_across_boundary))"
    by code_simp
  from a b show ?thesis by (simp add: matchedKeywords_spec_def)
qed

end
